(* ===== verification/TFS_Prelude.thy ===== *)
theory TFS_Prelude
  imports Main "HOL-Library.Word"
begin

text \<open>
  Shared vocabulary of the development: C strings and byte memory (a C \<open>char\<close> is a HOL
  \<^typ>\<open>char\<close>, an 8-bit value), the little-endian layout of a 32-bit \<open>int\<close>, the
  scan \<open>for (i = lo; i < hi; i++) if (P(i)) ...\<close> that the tables of the program share,
  results with faults, and reachability for step relations.
\<close>

named_theorems mem_simps \<open>reads of byte memory after writes\<close>
named_theorems frame_dest \<open>what an operation of the server changes, as destruction rules\<close>

section \<open>Machine types and faults\<close>

type_synonym size_t = "64 word"

text \<open>
  What a C execution can run into besides returning: an access outside the object it may
  access, a thread locking a default mutex it already holds, a call that waits for bytes or
  for a mutex that nobody will provide, or the end of the process with an exit status.
\<close>

datatype fault = Memory_Fault | Overflow | Self_Deadlock | Blocked | Exited int

definition andthen :: "fault + 'a \<Rightarrow> ('a \<Rightarrow> fault + 'b) \<Rightarrow> fault + 'b" where
  "andthen r f = (case r of Inl e \<Rightarrow> Inl e | Inr a \<Rightarrow> f a)"

lemma andthen_Inr [simp]: "andthen (Inr a) f = f a"
  by (simp add: andthen_def)

lemma andthen_Inl [simp]: "andthen (Inl e) f = Inl e"
  by (simp add: andthen_def)

lemma andthen_eq_Inr: "andthen r f = Inr b \<longleftrightarrow> (\<exists>a. r = Inr a \<and> f a = Inr b)"
  by (simp add: andthen_def split: sum.splits)

section \<open>Scans\<close>

function first_index :: "(nat \<Rightarrow> bool) \<Rightarrow> nat \<Rightarrow> nat \<Rightarrow> nat option" where
  "first_index P i n =
     (if i < n then (if P i then Some i else first_index P (Suc i) n) else None)"
  by pat_completeness auto
termination
  by (relation "measure (\<lambda>(P, i, n). n - i)") auto

declare first_index.simps [simp del]

lemma first_index_SomeD:
  "first_index P i n = Some k \<Longrightarrow> i \<le> k \<and> k < n \<and> P k \<and> (\<forall>j. i \<le> j \<longrightarrow> j < k \<longrightarrow> \<not> P j)"
proof (induction P i n rule: first_index.induct)
  case (1 P i n)
  show ?case
  proof (cases "i < n \<and> \<not> P i")
    case True
    with "1.prems" have "first_index P (Suc i) n = Some k"
      by (simp add: first_index.simps [of P i n])
    with True "1.IH" have IH: "Suc i \<le> k \<and> k < n \<and> P k \<and> (\<forall>j. Suc i \<le> j \<longrightarrow> j < k \<longrightarrow> \<not> P j)"
      by blast
    have "\<not> P j" if "i \<le> j" "j < k" for j
      using that IH True by (cases "j = i") auto
    with IH show ?thesis by auto
  next
    case False
    with "1.prems" show ?thesis
      by (auto simp: first_index.simps [of P i n] split: if_splits)
  qed
qed

lemma first_index_NoneD: "first_index P i n = None \<Longrightarrow> i \<le> j \<Longrightarrow> j < n \<Longrightarrow> \<not> P j"
proof (induction P i n rule: first_index.induct)
  case (1 P i n)
  then show ?case
    by (cases "j = i") (auto simp: first_index.simps [of P i n] split: if_splits)
qed

lemma first_index_eq_Some:
  "first_index P 0 n = Some k \<longleftrightarrow> k < n \<and> P k \<and> (\<forall>j<k. \<not> P j)"
proof
  assume "first_index P 0 n = Some k"
  from first_index_SomeD [OF this] show "k < n \<and> P k \<and> (\<forall>j<k. \<not> P j)" by simp
next
  assume k: "k < n \<and> P k \<and> (\<forall>j<k. \<not> P j)"
  then obtain k' where k': "first_index P 0 n = Some k'"
    using first_index_NoneD [of P 0 n k] by (cases "first_index P 0 n") auto
  from first_index_SomeD [OF this] k have "k' = k"
    by (metis le0 nat_neq_iff)
  with k' show "first_index P 0 n = Some k" by simp
qed

lemma first_index_eq_None: "first_index P 0 n = None \<longleftrightarrow> (\<forall>j<n. \<not> P j)"
proof
  assume "first_index P 0 n = None"
  from first_index_NoneD [OF this] show "\<forall>j<n. \<not> P j" by simp
next
  assume none: "\<forall>j<n. \<not> P j"
  show "first_index P 0 n = None"
  proof (rule ccontr)
    assume "first_index P 0 n \<noteq> None"
    then obtain k where "first_index P 0 n = Some k" by blast
    then have "k < n \<and> P k" by (simp add: first_index_eq_Some)
    with none show False by blast
  qed
qed

lemma first_index_cong:
  assumes "\<And>j. j < n \<Longrightarrow> P j = Q j"
  shows "first_index P 0 n = first_index Q 0 n"
proof (cases "first_index Q 0 n")
  case (Some k)
  then have "first_index P 0 n = Some k"
    using assms by (simp add: first_index_eq_Some)
  with Some show ?thesis by simp
next
  case None
  then have "first_index P 0 n = None"
    using assms by (simp add: first_index_eq_None)
  with None show ?thesis by simp
qed

section \<open>C strings\<close>

abbreviation (input) NUL :: char where "NUL \<equiv> CHR 0x00"

text \<open>The string a \<open>char const *\<close> into the bytes \<open>s\<close> denotes: up to the first NUL.\<close>

definition cstr :: "string \<Rightarrow> string" where
  "cstr s = takeWhile (\<lambda>c. c \<noteq> NUL) s"

definition strlen :: "string \<Rightarrow> nat" where
  "strlen s = length (cstr s)"

text \<open>\<open>s[i]\<close>, with the terminating NUL that follows the listed bytes.\<close>

definition char_at :: "string \<Rightarrow> nat \<Rightarrow> char" where
  "char_at s i = (if i < length s then s ! i else NUL)"

text \<open>\<open>strncmp(a, b, n) == 0\<close>.\<close>

fun strncmp_eq :: "nat \<Rightarrow> string \<Rightarrow> string \<Rightarrow> bool" where
  "strncmp_eq 0 a b = True"
| "strncmp_eq (Suc n) a b =
     (if char_at a 0 \<noteq> char_at b 0 then False
      else if char_at a 0 = NUL then True
      else strncmp_eq n (tl a) (tl b))"

text \<open>The \<open>n\<close> bytes that \<open>strncpy(dst, src, n)\<close> stores.\<close>

definition strncpy :: "string \<Rightarrow> nat \<Rightarrow> string" where
  "strncpy src n = take n (cstr src) @ replicate (n - length (cstr src)) NUL"

lemma cstr_Nil [simp]: "cstr [] = []"
  by (simp add: cstr_def)

lemma cstr_Cons [simp]: "cstr (c # s) = (if c = NUL then [] else c # cstr s)"
  by (simp add: cstr_def)

lemma NUL_notin_cstr [simp]: "NUL \<notin> set (cstr s)"
  by (auto simp: cstr_def dest: set_takeWhileD)

lemma cstr_ident: "NUL \<notin> set s \<Longrightarrow> cstr s = s"
  by (induction s) auto

lemma cstr_cstr [simp]: "cstr (cstr s) = cstr s"
  by (simp add: cstr_ident)

lemma cstr_append_NUL: "NUL \<notin> set s \<Longrightarrow> cstr (s @ NUL # t) = s"
  by (induction s) auto

lemma cstr_append_replicate: "NUL \<notin> set s \<Longrightarrow> cstr (s @ replicate k NUL) = s"
  by (cases k) (auto simp: cstr_append_NUL cstr_ident)

lemma strncmp_eq_iff: "strncmp_eq n a b \<longleftrightarrow> take n (cstr a) = take n (cstr b)"
proof (induction n arbitrary: a b)
  case (Suc n)
  then show ?case
    by (cases a; cases b) (auto simp: char_at_def)
qed simp

lemma length_strncpy [simp]: "length (strncpy src n) = n"
  by (simp add: strncpy_def)

lemma cstr_strncpy: "cstr (strncpy src n @ [NUL]) = take n (cstr src)"
proof -
  have "NUL \<notin> set (take n (cstr src))"
    by (auto dest: in_set_takeD)
  then have "cstr (take n (cstr src) @ replicate (Suc (n - length (cstr src))) NUL)
    = take n (cstr src)"
    by (rule cstr_append_replicate)
  then show ?thesis
    by (simp add: strncpy_def replicate_append_same)
qed

section \<open>Byte memory\<close>

type_synonym memory = "nat \<Rightarrow> char"

definition mem_write :: "memory \<Rightarrow> nat \<Rightarrow> string \<Rightarrow> memory" where
  "mem_write m a xs = (\<lambda>i. if a \<le> i \<and> i < a + length xs then xs ! (i - a) else m i)"

definition mem_read :: "memory \<Rightarrow> nat \<Rightarrow> nat \<Rightarrow> string" where
  "mem_read m a n = map m [a..<a + n]"

lemma length_mem_read [simp]: "length (mem_read m a n) = n"
  by (simp add: mem_read_def)

lemma nth_mem_read [simp]: "i < n \<Longrightarrow> mem_read m a n ! i = m (a + i)"
  by (simp add: mem_read_def)

lemma mem_read_cong:
  "(\<And>i. i < n \<Longrightarrow> m (a + i) = m' (a + i)) \<Longrightarrow> mem_read m a n = mem_read m' a n"
  by (simp add: list_eq_iff_nth_eq)

lemma mem_write_other:
  "i < a \<or> a + length xs \<le> i \<Longrightarrow> mem_write m a xs i = m i"
  by (auto simp: mem_write_def)

lemma mem_read_write_same [mem_simps]:
  "n = length xs \<Longrightarrow> mem_read (mem_write m a xs) a n = xs"
  by (simp add: list_eq_iff_nth_eq mem_write_def)

lemma mem_read_write_disjoint [mem_simps]:
  "b + n \<le> a \<or> a + length xs \<le> b \<Longrightarrow> mem_read (mem_write m a xs) b n = mem_read m b n"
  by (rule mem_read_cong) (auto simp: mem_write_def)

lemma mem_read_append: "mem_read m a (k + n) = mem_read m a k @ mem_read m (a + k) n"
  by (rule nth_equalityI) (auto simp: nth_append)

lemma take_mem_read: "take k (mem_read m a n) = mem_read m a (min k n)"
  by (simp add: list_eq_iff_nth_eq)

lemma drop_mem_read: "drop k (mem_read m a n) = mem_read m (a + k) (n - k)"
  by (simp add: list_eq_iff_nth_eq add.assoc)

lemma mem_read_0 [simp]: "mem_read m a 0 = []"
  by (simp add: mem_read_def)

text \<open>
  Overwriting part of a region, possibly past its end: the bytes of the longer region.
\<close>

lemma mem_read_write_within:
  assumes "k \<le> n"
  shows "mem_read (mem_write m (a + k) xs) a (max n (k + length xs))
    = take k (mem_read m a n) @ xs @ drop (k + length xs) (mem_read m a n)" (is "?l = ?r")
proof (rule nth_equalityI)
  show "length ?l = length ?r" using assms by simp
next
  fix i assume i: "i < length ?l"
  then have "i < max n (k + length xs)" by simp
  then show "?l ! i = ?r ! i"
    using assms by (auto simp: mem_write_def nth_append less_max_iff_disj)
qed

section \<open>The layout of an \<open>int\<close>\<close>

text \<open>Four bytes, least significant first, two's complement.\<close>

definition enc_int :: "int \<Rightarrow> string" where
  "enc_int v = [char_of (v mod 256), char_of (v div 256 mod 256),
     char_of (v div 65536 mod 256), char_of (v div 16777216 mod 256)]"

definition dec_int :: "string \<Rightarrow> int" where
  "dec_int bs = (let n = of_char (bs ! 0) + 256 * of_char (bs ! 1)
       + 65536 * of_char (bs ! 2) + 16777216 * of_char (bs ! 3)
     in if n < 2 ^ 31 then n else n - 2 ^ 32)"

lemma length_enc_int [simp]: "length (enc_int v) = 4"
  by (simp add: enc_int_def)

lemma dec_int_bytes:
  "dec_int [a, b, c, d] = (let n = of_char a + 256 * of_char b + 65536 * of_char c
     + 16777216 * of_char d in if n < 2 ^ 31 then n else n - 2 ^ 32)"
  by (simp add: dec_int_def)

lemma base256_digits:
  fixes v :: int
  shows "v mod 256 + 256 * (v div 256 mod 256) + 65536 * (v div 65536 mod 256)
    + 16777216 * (v div 16777216 mod 256) = v mod 4294967296"
proof -
  have "v div 65536 = v div 256 div 256" and "v div 16777216 = v div 65536 div 256"
    and "v div 4294967296 = v div 16777216 div 256"
    by (simp_all flip: div_mult2_eq zdiv_zmult2_eq)
  moreover note div_mult_mod_eq [of v 256] div_mult_mod_eq [of "v div 256" 256]
    div_mult_mod_eq [of "v div 65536" 256] div_mult_mod_eq [of "v div 16777216" 256]
    div_mult_mod_eq [of v 4294967296]
  ultimately show ?thesis by linarith
qed

lemma of_char_of_256: "of_char (char_of (k mod 256 :: int)) = k mod 256"
  by (simp add: of_char_of)

lemma dec_enc_int:
  assumes "- (2 ^ 31) \<le> v" and "v < 2 ^ 31"
  shows "dec_int (enc_int v) = v"
proof -
  have "v mod 4294967296 = (if 0 \<le> v then v else v + 4294967296)"
  proof (cases "0 \<le> v")
    case False
    have "v mod 4294967296 = (v + 4294967296) mod 4294967296" by simp
    also have "\<dots> = v + 4294967296"
      using False assms by (intro mod_pos_pos_trivial) auto
    finally show ?thesis using False by simp
  qed (use assms in simp)
  moreover have "dec_int (enc_int v) = (if v mod 4294967296 < 2 ^ 31 then v mod 4294967296
      else v mod 4294967296 - 2 ^ 32)"
    by (simp only: enc_int_def Let_def dec_int_bytes of_char_of_256 base256_digits)
  ultimately show ?thesis
    using assms by (auto split: if_splits)
qed

section \<open>Reachability\<close>

inductive reaches :: "('a \<Rightarrow> 'a \<Rightarrow> bool) \<Rightarrow> 'a \<Rightarrow> 'a \<Rightarrow> bool" for step where
  reaches_refl: "reaches step s s"
| reaches_step: "reaches step s t \<Longrightarrow> step t u \<Longrightarrow> reaches step s u"

text \<open>An invariant of a step relation: the contract that every machine below fulfils.\<close>

locale step_invariant =
  fixes step :: "'a \<Rightarrow> 'a \<Rightarrow> bool"
    and start :: "'a \<Rightarrow> bool"
    and inv :: "'a \<Rightarrow> bool"
  assumes inv_start: "start s \<Longrightarrow> inv s"
    and inv_step: "inv s \<Longrightarrow> step s t \<Longrightarrow> inv t"
begin

lemma inv_reaches_from: "reaches step s t \<Longrightarrow> inv s \<Longrightarrow> inv t"
  by (induction rule: reaches.induct) (auto intro: inv_step)

lemma inv_reachable: "start s \<Longrightarrow> reaches step s t \<Longrightarrow> inv t"
  using inv_start inv_reaches_from by blast

end

section \<open>Histories and refinement\<close>

text \<open>
  A machine with operations \<open>'o\<close> and answers \<open>'r\<close> that may fault, run over a list of
  operations, and a specification of it as a relation between states.
\<close>

fun run_ops :: "('s \<Rightarrow> 'o \<Rightarrow> fault + 'r \<times> 's) \<Rightarrow> 's \<Rightarrow> 'o list \<Rightarrow> fault + 'r list \<times> 's" where
  "run_ops step s [] = Inr ([], s)"
| "run_ops step s (x # xs) =
     andthen (step s x) (\<lambda>(r, t). andthen (run_ops step t xs) (\<lambda>(rs, u). Inr (r # rs, u)))"

text \<open>The operations of the list satisfy \<open>ok\<close> in the states the run reaches.\<close>

fun ok_ops :: "('s \<Rightarrow> 'o \<Rightarrow> fault + 'r \<times> 's) \<Rightarrow> ('s \<Rightarrow> 'o \<Rightarrow> bool) \<Rightarrow> 's \<Rightarrow> 'o list \<Rightarrow> bool" where
  "ok_ops step ok s [] = True"
| "ok_ops step ok s (x # xs) =
     (ok s x \<and> (case step s x of Inl _ \<Rightarrow> True | Inr (r, t) \<Rightarrow> ok_ops step ok t xs))"

fun accepts :: "('a \<Rightarrow> 'o \<Rightarrow> 'r \<Rightarrow> 'a \<Rightarrow> bool) \<Rightarrow> 'a \<Rightarrow> 'o list \<Rightarrow> 'r list \<Rightarrow> 'a \<Rightarrow> bool" where
  "accepts spec a [] [] b = (a = b)"
| "accepts spec a (x # xs) (r # rs) b = (\<exists>c. spec a x r c \<and> accepts spec c xs rs b)"
| "accepts spec a _ _ b = False"

lemma accepts_append:
  "accepts spec a xs rs b \<Longrightarrow> accepts spec b ys ss c \<Longrightarrow> accepts spec a (xs @ ys) (rs @ ss) c"
  by (induction spec a xs rs b rule: accepts.induct) auto

text \<open>
  The contract of an implementation towards its specification: under the invariant an
  admissible operation does not fault, keeps the invariant and is a step of the
  specification. It lifts to histories.
\<close>

locale refinement =
  fixes step :: "'s \<Rightarrow> 'o \<Rightarrow> fault + 'r \<times> 's"
    and inv :: "'s \<Rightarrow> bool"
    and ok :: "'s \<Rightarrow> 'o \<Rightarrow> bool"
    and abs :: "'s \<Rightarrow> 'a"
    and spec :: "'a \<Rightarrow> 'o \<Rightarrow> 'r \<Rightarrow> 'a \<Rightarrow> bool"
  assumes simulation:
    "inv s \<Longrightarrow> ok s x \<Longrightarrow> \<exists>r t. step s x = Inr (r, t) \<and> inv t \<and> spec (abs s) x r (abs t)"
begin

lemma history_refines:
  "inv s \<Longrightarrow> ok_ops step ok s xs
    \<Longrightarrow> \<exists>rs t. run_ops step s xs = Inr (rs, t) \<and> inv t \<and> accepts spec (abs s) xs rs (abs t)"
proof (induction xs arbitrary: s)
  case Nil
  then show ?case by simp
next
  case (Cons x xs)
  then obtain r t where rt: "step s x = Inr (r, t)" "inv t" "spec (abs s) x r (abs t)"
    using simulation [of s x] by auto
  with Cons obtain rs u where "run_ops step t xs = Inr (rs, u)" "inv u"
    "accepts spec (abs t) xs rs (abs u)"
    by fastforce
  with rt show ?case by auto
qed

end

end
