(* ===== verification/Alloc_Table.thy ===== *)
theory Alloc_Table
  imports TFS_Prelude
begin

text \<open>
  The contract of the program's allocation tables. The i-node table, the block table, the
  open file table and the server's session table are arrays of FREE/TAKEN flags that are
  allocated from in the same way: a scan takes the first free position, and answers -1 when
  there is none. The lemmas that follow from that behaviour (freshness, counting,
  exhaustion, reuse) are proved here once; the theories of the four tables interpret
  the locales on the definitions that model the code.
\<close>

locale alloc_table =
  fixes taken :: "'s \<Rightarrow> nat \<Rightarrow> bool"
    and capacity :: nat
    and alloc :: "'s \<Rightarrow> int \<times> 's"
  assumes alloc_full:
      "(\<forall>i<capacity. taken s i) \<Longrightarrow> fst (alloc s) = -1 \<and> (\<forall>j. taken (snd (alloc s)) j = taken s j)"
    and alloc_first:
      "i < capacity \<Longrightarrow> \<not> taken s i \<Longrightarrow> (\<forall>j<i. taken s j)
        \<Longrightarrow> fst (alloc s) = int i \<and> (\<forall>j. taken (snd (alloc s)) j = (j = i \<or> taken s j))"
begin

definition used :: "'s \<Rightarrow> nat" where
  "used s = card {i. i < capacity \<and> taken s i}"

lemma alloc_cases:
  obtains (full) "\<forall>i<capacity. taken s i" and "fst (alloc s) = -1"
      and "\<forall>j. taken (snd (alloc s)) j = taken s j"
    | (fresh) i where "i < capacity" and "\<not> taken s i" and "\<forall>j<i. taken s j"
      and "fst (alloc s) = int i" and "\<forall>j. taken (snd (alloc s)) j = (j = i \<or> taken s j)"
proof (cases "first_index (\<lambda>i. \<not> taken s i) 0 capacity")
  case None
  then have "\<forall>i<capacity. taken s i" by (simp add: first_index_eq_None)
  with full show thesis using alloc_full by blast
next
  case (Some i)
  then have i: "i < capacity" "\<not> taken s i" "\<forall>j<i. taken s j"
    by (auto simp: first_index_eq_Some)
  show thesis
    using fresh [OF i] alloc_first [OF i] by blast
qed

lemma used_le: "used s \<le> capacity"
  using card_mono [of "{..<capacity}" "{i. i < capacity \<and> taken s i}"] by (auto simp: used_def)

lemma used_full: "used s = capacity \<longleftrightarrow> (\<forall>i<capacity. taken s i)"
proof
  assume "used s = capacity"
  then have "{i. i < capacity \<and> taken s i} = {..<capacity}"
    using card_subset_eq [of "{..<capacity}" "{i. i < capacity \<and> taken s i}"]
    by (auto simp: used_def)
  then show "\<forall>i<capacity. taken s i" by auto
next
  assume "\<forall>i<capacity. taken s i"
  then have "{i. i < capacity \<and> taken s i} = {..<capacity}" by auto
  then show "used s = capacity" by (simp add: used_def)
qed

lemma used_insert:
  assumes "i < capacity" and "\<not> taken s i" and "\<forall>j. taken t j = (j = i \<or> taken s j)"
  shows "used t = Suc (used s)"
proof -
  have "{j. j < capacity \<and> taken t j} = insert i {j. j < capacity \<and> taken s j}"
    using assms by auto
  with assms(2) show ?thesis by (simp add: used_def)
qed

lemma alloc_fails_iff: "fst (alloc s) = -1 \<longleftrightarrow> used s = capacity"
  by (cases rule: alloc_cases [of s]) (auto simp: used_full)

lemma alloc_not_full: "used s < capacity \<Longrightarrow> fst (alloc s) \<noteq> -1"
  by (simp add: alloc_fails_iff)

lemma alloc_used:
  "used (snd (alloc s)) = (if fst (alloc s) = -1 then used s else Suc (used s))"
proof (cases rule: alloc_cases [of s])
  case full
  then show ?thesis by (simp add: used_def)
next
  case (fresh i)
  then show ?thesis using used_insert [of i s "snd (alloc s)"] by simp
qed

text \<open>An allocated position is in range and was free; the others keep their state.\<close>

lemma alloc_fresh:
  assumes "alloc s = (r, t)" and "r \<noteq> -1"
  shows "\<exists>i<capacity. r = int i \<and> \<not> taken s i \<and> (\<forall>j<i. taken s j) \<and> (\<forall>j. taken t j = (j = i \<or> taken s j))"
  using assms by (cases rule: alloc_cases [of s]) auto

lemma alloc_lowest:
  assumes "alloc s = (int i, t)" and "j < i"
  shows "taken s j"
  using alloc_fresh [OF assms(1)] assms(2) by auto

end

text \<open>A table whose positions are given back with a release operation.\<close>

locale alloc_table_release = alloc_table taken capacity alloc
  for taken :: "'s \<Rightarrow> nat \<Rightarrow> bool" and capacity :: nat and alloc :: "'s \<Rightarrow> int \<times> 's" +
  fixes release :: "int \<Rightarrow> 's \<Rightarrow> int \<times> 's"
  assumes release_taken:
    "i < capacity \<Longrightarrow> taken s i
      \<Longrightarrow> fst (release (int i) s) = 0 \<and> (\<forall>j. taken (snd (release (int i) s)) j = (j \<noteq> i \<and> taken s j))"
begin

lemma release_used:
  assumes "i < capacity" and "taken s i"
  shows "Suc (used (snd (release (int i) s))) = used s"
proof -
  let ?t = "snd (release (int i) s)"
  have "\<not> taken ?t i" and "\<forall>j. taken s j = (j = i \<or> taken ?t j)"
    using release_taken [OF assms] assms(2) by auto
  with assms(1) show ?thesis using used_insert [of i ?t s] by simp
qed

lemma release_makes_room:
  assumes "i < capacity" and "taken s i"
  shows "fst (alloc (snd (release (int i) s))) \<noteq> -1"
  using release_used [OF assms] used_le [of s] by (intro alloc_not_full) simp

text \<open>Allocating and releasing at once gives the table back as it was.\<close>

lemma alloc_release:
  assumes "alloc s = (r, t)" and "r \<noteq> -1"
  shows "fst (release r t) = 0 \<and> (\<forall>j. taken (snd (release r t)) j = taken s j)"
proof -
  obtain i where i: "i < capacity" "r = int i" "\<not> taken s i" "\<forall>j. taken t j = (j = i \<or> taken s j)"
    using alloc_fresh [OF assms] by blast
  then show ?thesis using release_taken [of i t] by auto
qed

text \<open>The lowest released position is the next one handed out.\<close>

lemma release_alloc_reuse:
  assumes "i < capacity" and "\<forall>j\<le>i. taken s j"
  shows "fst (alloc (snd (release (int i) s))) = int i"
proof -
  have "taken s i" using assms(2) by simp
  from release_taken [OF assms(1) this] assms
  show ?thesis by (intro alloc_first [THEN conjunct1]) auto
qed

end

end
