(* ===== verification/FS_State.thy ===== *)
theory FS_State
  imports Alloc_Table
begin

text \<open>
  The file system state: \<open>fs/state.c\<close>, with the types of \<open>fs/state.h\<close> and the sizes of
  \<open>fs/config.h\<close>. The static arrays are the fields of one record; an array of \<open>N\<close>
  elements is a function on indices of which the code only uses \<open>0..<N\<close>. The block area
  \<open>fs_data\<close> is flat byte memory, so that directory entries and file contents overlay the
  same bytes as they do in the code. Pointers into an array are indices, \<open>NULL\<close> is
  \<^const>\<open>None\<close>. The delay loops (\<open>insert_delay\<close>) and the output have no part in the state.
\<close>

section \<open>Sizes and types\<close>

abbreviation (input) ROOT_DIR_INUM :: int where "ROOT_DIR_INUM \<equiv> 0"
abbreviation (input) BLOCK_SIZE :: nat where "BLOCK_SIZE \<equiv> 1024"
abbreviation (input) DATA_BLOCKS :: nat where "DATA_BLOCKS \<equiv> 1024"
abbreviation (input) INODE_TABLE_SIZE :: nat where "INODE_TABLE_SIZE \<equiv> 50"
abbreviation (input) MAX_OPEN_FILES :: nat where "MAX_OPEN_FILES \<equiv> 20"
abbreviation (input) MAX_FILE_NAME :: nat where "MAX_FILE_NAME \<equiv> 40"

datatype inode_type = T_FILE | T_DIRECTORY
datatype allocation_state_t = FREE | TAKEN

record inode_t =
  i_node_type :: inode_type
  i_size :: size_t
  i_data_block :: int

record open_file_entry_t =
  of_inumber :: int
  of_offset :: size_t

record fs_state =
  inode_table :: "nat \<Rightarrow> inode_t"
  freeinode_ts :: "nat \<Rightarrow> allocation_state_t"
  fs_data :: memory
  free_blocks :: "nat \<Rightarrow> allocation_state_t"
  open_file_table :: "nat \<Rightarrow> open_file_entry_t"
  free_open_file_entries :: "nat \<Rightarrow> allocation_state_t"

text \<open>Static storage starts out zeroed.\<close>

definition static_state :: fs_state where
  "static_state = \<lparr>inode_table = (\<lambda>_. \<lparr>i_node_type = T_FILE, i_size = 0, i_data_block = 0\<rparr>),
     freeinode_ts = (\<lambda>_. FREE), fs_data = (\<lambda>_. NUL), free_blocks = (\<lambda>_. FREE),
     open_file_table = (\<lambda>_. \<lparr>of_inumber = 0, of_offset = 0\<rparr>),
     free_open_file_entries = (\<lambda>_. FREE)\<rparr>"

section \<open>Directory entries in a block\<close>

text \<open>
  A \<open>dir_entry_t\<close> takes 44 bytes: the name's 40, then the inumber. \<open>MAX_DIR_ENTRIES\<close> is
  \<open>BLOCK_SIZE / sizeof(dir_entry_t)\<close>. The entries are read and written at
  \<open>dir_entry[i]\<close> for a block that starts at address \<open>a\<close>.
\<close>

abbreviation (input) sizeof_dir_entry :: nat where "sizeof_dir_entry \<equiv> 44"
abbreviation (input) MAX_DIR_ENTRIES :: nat where "MAX_DIR_ENTRIES \<equiv> 23"

definition get_d_name :: "memory \<Rightarrow> nat \<Rightarrow> nat \<Rightarrow> string" where
  "get_d_name m a i = mem_read m (a + i * sizeof_dir_entry) MAX_FILE_NAME"

definition get_d_inumber :: "memory \<Rightarrow> nat \<Rightarrow> nat \<Rightarrow> int" where
  "get_d_inumber m a i = dec_int (mem_read m (a + i * sizeof_dir_entry + MAX_FILE_NAME) 4)"

definition set_d_name :: "nat \<Rightarrow> nat \<Rightarrow> string \<Rightarrow> memory \<Rightarrow> memory" where
  "set_d_name a i name m = mem_write m (a + i * sizeof_dir_entry) name"

definition set_d_inumber :: "nat \<Rightarrow> nat \<Rightarrow> int \<Rightarrow> memory \<Rightarrow> memory" where
  "set_d_inumber a i v m = mem_write m (a + i * sizeof_dir_entry + MAX_FILE_NAME) (enc_int v)"

text \<open>
  What \<open>strncpy(d_name, sub_name, MAX_FILE_NAME - 1); d_name[MAX_FILE_NAME - 1] = 0\<close>
  leaves in an entry's name.
\<close>

definition entry_name :: "string \<Rightarrow> string" where
  "entry_name sub_name = strncpy sub_name (MAX_FILE_NAME - 1) @ [NUL]"

section \<open>Validity of numbers\<close>

definition valid_inumber :: "int \<Rightarrow> bool" where
  "valid_inumber inumber \<longleftrightarrow> inumber \<ge> 0 \<and> inumber < int INODE_TABLE_SIZE"

definition valid_block_number :: "int \<Rightarrow> bool" where
  "valid_block_number block_number \<longleftrightarrow> block_number \<ge> 0 \<and> block_number < int DATA_BLOCKS"

definition valid_file_handle :: "int \<Rightarrow> bool" where
  "valid_file_handle file_handle \<longleftrightarrow> file_handle \<ge> 0 \<and> file_handle < int MAX_OPEN_FILES"

section \<open>Initialisation\<close>

definition state_init :: "fs_state \<Rightarrow> fs_state" where
  "state_init s = s\<lparr>
     freeinode_ts := (\<lambda>i. if i < INODE_TABLE_SIZE then FREE else freeinode_ts s i),
     free_blocks := (\<lambda>i. if i < DATA_BLOCKS then FREE else free_blocks s i),
     free_open_file_entries :=
       (\<lambda>i. if i < MAX_OPEN_FILES then FREE else free_open_file_entries s i)\<rparr>"

definition state_destroy :: "fs_state \<Rightarrow> fs_state" where
  "state_destroy s = s"

section \<open>Data blocks\<close>

definition data_block_alloc :: "fs_state \<Rightarrow> int \<times> fs_state" where
  "data_block_alloc s =
     (case first_index (\<lambda>i. free_blocks s i = FREE) 0 DATA_BLOCKS of
        Some i \<Rightarrow> (int i, s\<lparr>free_blocks := (free_blocks s)(i := TAKEN)\<rparr>)
      | None \<Rightarrow> (-1, s))"

definition data_block_free :: "int \<Rightarrow> fs_state \<Rightarrow> int \<times> fs_state" where
  "data_block_free block_number s =
     (if \<not> valid_block_number block_number then (-1, s)
      else (0, s\<lparr>free_blocks := (free_blocks s)(nat block_number := FREE)\<rparr>))"

text \<open>The address in \<open>fs_data\<close> of the first byte of the block.\<close>

definition data_block_get :: "int \<Rightarrow> nat option" where
  "data_block_get block_number =
     (if \<not> valid_block_number block_number then None
      else Some (nat block_number * BLOCK_SIZE))"

section \<open>I-nodes\<close>

definition inode_update :: "nat \<Rightarrow> (inode_t \<Rightarrow> inode_t) \<Rightarrow> fs_state \<Rightarrow> fs_state" where
  "inode_update i f s = s\<lparr>inode_table := (inode_table s)(i := f (inode_table s i))\<rparr>"

definition inode_create :: "inode_type \<Rightarrow> fs_state \<Rightarrow> int \<times> fs_state" where
  "inode_create n_type s =
     (case first_index (\<lambda>i. freeinode_ts s i = FREE) 0 INODE_TABLE_SIZE of
        None \<Rightarrow> (-1, s)
      | Some inumber \<Rightarrow>
          (let s1 = s\<lparr>freeinode_ts := (freeinode_ts s)(inumber := TAKEN)\<rparr>;
               s2 = inode_update inumber (\<lambda>n. n\<lparr>i_node_type := n_type\<rparr>) s1
           in if n_type = T_DIRECTORY then
                (let (b, s3) = data_block_alloc s2 in
                 if b = -1 then
                   (-1, s3\<lparr>freeinode_ts := (freeinode_ts s3)(inumber := FREE)\<rparr>)
                 else
                   (let s4 = inode_update inumber
                          (\<lambda>n. n\<lparr>i_size := of_nat BLOCK_SIZE, i_data_block := b\<rparr>) s3
                    in case data_block_get b of
                         None \<Rightarrow> (-1, s4\<lparr>freeinode_ts := (freeinode_ts s4)(inumber := FREE)\<rparr>)
                       | Some dir_entry \<Rightarrow>
                           (int inumber, s4\<lparr>fs_data := fold (\<lambda>i. set_d_inumber dir_entry i (-1))
                              [0..<MAX_DIR_ENTRIES] (fs_data s4)\<rparr>)))
              else
                (int inumber,
                 inode_update inumber (\<lambda>n. n\<lparr>i_size := 0, i_data_block := -1\<rparr>) s2)))"

definition inode_delete :: "int \<Rightarrow> fs_state \<Rightarrow> int \<times> fs_state" where
  "inode_delete inumber s =
     (if \<not> valid_inumber inumber \<or> freeinode_ts s (nat inumber) = FREE then (-1, s)
      else
        (let i = nat inumber;
             s1 = s\<lparr>freeinode_ts := (freeinode_ts s)(i := FREE)\<rparr>
         in if i_size (inode_table s1 i) > 0 then
              (let (r, s2) = data_block_free (i_data_block (inode_table s1 i)) s1
               in if r = -1 then (-1, s2) else (0, s2))
            else (0, s1)))"

definition inode_get :: "int \<Rightarrow> nat option" where
  "inode_get inumber = (if \<not> valid_inumber inumber then None else Some (nat inumber))"

section \<open>Directories\<close>

definition add_dir_entry :: "int \<Rightarrow> int \<Rightarrow> string \<Rightarrow> fs_state \<Rightarrow> int \<times> fs_state" where
  "add_dir_entry inumber sub_inumber sub_name s =
     (if \<not> valid_inumber inumber \<or> \<not> valid_inumber sub_inumber then (-1, s)
      else if i_node_type (inode_table s (nat inumber)) \<noteq> T_DIRECTORY then (-1, s)
      else if strlen sub_name = 0 then (-1, s)
      else case data_block_get (i_data_block (inode_table s (nat inumber))) of
             None \<Rightarrow> (-1, s)
           | Some dir_entry \<Rightarrow>
               (case first_index (\<lambda>i. get_d_inumber (fs_data s) dir_entry i = -1)
                       0 MAX_DIR_ENTRIES of
                  Some i \<Rightarrow>
                    (0, s\<lparr>fs_data := set_d_name dir_entry i (entry_name sub_name)
                            (set_d_inumber dir_entry i sub_inumber (fs_data s))\<rparr>)
                | None \<Rightarrow> (-1, s)))"

definition find_in_dir :: "int \<Rightarrow> string \<Rightarrow> fs_state \<Rightarrow> int" where
  "find_in_dir inumber sub_name s =
     (if \<not> valid_inumber inumber \<or> i_node_type (inode_table s (nat inumber)) \<noteq> T_DIRECTORY
      then -1
      else case data_block_get (i_data_block (inode_table s (nat inumber))) of
             None \<Rightarrow> -1
           | Some dir_entry \<Rightarrow>
               (case first_index (\<lambda>i. get_d_inumber (fs_data s) dir_entry i \<noteq> -1 \<and>
                        strncmp_eq MAX_FILE_NAME (get_d_name (fs_data s) dir_entry i) sub_name)
                       0 MAX_DIR_ENTRIES of
                  Some i \<Rightarrow> get_d_inumber (fs_data s) dir_entry i
                | None \<Rightarrow> -1))"

section \<open>The open file table\<close>

definition add_to_open_file_table :: "int \<Rightarrow> size_t \<Rightarrow> fs_state \<Rightarrow> int \<times> fs_state" where
  "add_to_open_file_table inumber offset s =
     (case first_index (\<lambda>i. free_open_file_entries s i = FREE) 0 MAX_OPEN_FILES of
        Some i \<Rightarrow>
          (int i, s\<lparr>free_open_file_entries := (free_open_file_entries s)(i := TAKEN),
                    open_file_table := (open_file_table s)
                      (i := \<lparr>of_inumber = inumber, of_offset = offset\<rparr>)\<rparr>)
      | None \<Rightarrow> (-1, s))"

definition remove_from_open_file_table :: "int \<Rightarrow> fs_state \<Rightarrow> int \<times> fs_state" where
  "remove_from_open_file_table fhandle s =
     (if \<not> valid_file_handle fhandle \<or> free_open_file_entries s (nat fhandle) \<noteq> TAKEN
      then (-1, s)
      else (0, s\<lparr>free_open_file_entries := (free_open_file_entries s)(nat fhandle := FREE)\<rparr>))"

definition get_open_file_entry :: "int \<Rightarrow> nat option" where
  "get_open_file_entry fhandle =
     (if \<not> valid_file_handle fhandle then None else Some (nat fhandle))"

section \<open>The tables fulfil the allocation contract\<close>

lemma not_FREE [simp]: "x \<noteq> FREE \<longleftrightarrow> x = TAKEN"
  by (cases x) auto

lemma not_TAKEN [simp]: "x \<noteq> TAKEN \<longleftrightarrow> x = FREE"
  by (cases x) auto

interpretation blocks: alloc_table_release
  "\<lambda>s i. free_blocks s i = TAKEN" DATA_BLOCKS data_block_alloc data_block_free
proof unfold_locales
  fix s :: fs_state
  assume "\<forall>i<DATA_BLOCKS. free_blocks s i = TAKEN"
  then have "first_index (\<lambda>i. free_blocks s i = FREE) 0 DATA_BLOCKS = None"
    by (simp add: first_index_eq_None)
  then show "fst (data_block_alloc s) = -1
      \<and> (\<forall>j. (free_blocks (snd (data_block_alloc s)) j = TAKEN) = (free_blocks s j = TAKEN))"
    by (simp add: data_block_alloc_def)
next
  fix s :: fs_state and i
  assume "i < DATA_BLOCKS" and "free_blocks s i \<noteq> TAKEN" and "\<forall>j<i. free_blocks s j = TAKEN"
  then have "first_index (\<lambda>i. free_blocks s i = FREE) 0 DATA_BLOCKS = Some i"
    by (simp add: first_index_eq_Some)
  then show "fst (data_block_alloc s) = int i \<and> (\<forall>j.
      (free_blocks (snd (data_block_alloc s)) j = TAKEN) = (j = i \<or> free_blocks s j = TAKEN))"
    by (simp add: data_block_alloc_def)
next
  fix s :: fs_state and i
  assume "i < DATA_BLOCKS"
  then show "fst (data_block_free (int i) s) = 0 \<and> (\<forall>j.
      (free_blocks (snd (data_block_free (int i) s)) j = TAKEN)
        = (j \<noteq> i \<and> free_blocks s j = TAKEN))"
    by (simp add: data_block_free_def valid_block_number_def)
qed

interpretation handles: alloc_table_release
  "\<lambda>s i. free_open_file_entries s i = TAKEN" MAX_OPEN_FILES
  "add_to_open_file_table inumber offset" remove_from_open_file_table
  for inumber offset
proof unfold_locales
  fix s :: fs_state
  assume "\<forall>i<MAX_OPEN_FILES. free_open_file_entries s i = TAKEN"
  then have "first_index (\<lambda>i. free_open_file_entries s i = FREE) 0 MAX_OPEN_FILES = None"
    by (simp add: first_index_eq_None)
  then show "fst (add_to_open_file_table inumber offset s) = -1 \<and> (\<forall>j.
      (free_open_file_entries (snd (add_to_open_file_table inumber offset s)) j = TAKEN)
        = (free_open_file_entries s j = TAKEN))"
    by (simp add: add_to_open_file_table_def)
next
  fix s :: fs_state and i
  assume "i < MAX_OPEN_FILES" and "free_open_file_entries s i \<noteq> TAKEN"
    and "\<forall>j<i. free_open_file_entries s j = TAKEN"
  then have "first_index (\<lambda>i. free_open_file_entries s i = FREE) 0 MAX_OPEN_FILES = Some i"
    by (simp add: first_index_eq_Some)
  then show "fst (add_to_open_file_table inumber offset s) = int i \<and> (\<forall>j.
      (free_open_file_entries (snd (add_to_open_file_table inumber offset s)) j = TAKEN)
        = (j = i \<or> free_open_file_entries s j = TAKEN))"
    by (simp add: add_to_open_file_table_def)
next
  fix s :: fs_state and i
  assume "i < MAX_OPEN_FILES" and "free_open_file_entries s i = TAKEN"
  then show "fst (remove_from_open_file_table (int i) s) = 0 \<and> (\<forall>j.
      (free_open_file_entries (snd (remove_from_open_file_table (int i) s)) j = TAKEN)
        = (j \<noteq> i \<and> free_open_file_entries s j = TAKEN))"
    by (simp add: remove_from_open_file_table_def valid_file_handle_def)
qed

interpretation inodes: alloc_table
  "\<lambda>s i. freeinode_ts s i = TAKEN" INODE_TABLE_SIZE "inode_create T_FILE"
proof unfold_locales
  fix s :: fs_state
  assume "\<forall>i<INODE_TABLE_SIZE. freeinode_ts s i = TAKEN"
  then have "first_index (\<lambda>i. freeinode_ts s i = FREE) 0 INODE_TABLE_SIZE = None"
    by (simp add: first_index_eq_None)
  then show "fst (inode_create T_FILE s) = -1
      \<and> (\<forall>j. (freeinode_ts (snd (inode_create T_FILE s)) j = TAKEN) = (freeinode_ts s j = TAKEN))"
    by (simp add: inode_create_def)
next
  fix s :: fs_state and i
  assume "i < INODE_TABLE_SIZE" and "freeinode_ts s i \<noteq> TAKEN"
    and "\<forall>j<i. freeinode_ts s j = TAKEN"
  then have "first_index (\<lambda>i. freeinode_ts s i = FREE) 0 INODE_TABLE_SIZE = Some i"
    by (simp add: first_index_eq_Some)
  then show "fst (inode_create T_FILE s) = int i \<and> (\<forall>j.
      (freeinode_ts (snd (inode_create T_FILE s)) j = TAKEN) = (j = i \<or> freeinode_ts s j = TAKEN))"
    by (simp add: inode_create_def inode_update_def)
qed

end
