(* ===== verification/FS_Directory.thy ===== *)
theory FS_Directory
  imports FS_State
begin

text \<open>
  Directory entries as a component: the laws of reading an entry after writing one
  (\<open>fs/state.c\<close>, \<open>add_dir_entry\<close> and \<open>find_in_dir\<close> over the bytes of the directory's
  block), and the two operations characterised by what the entries hold.
\<close>

section \<open>Entries after writes\<close>

abbreviation (input) int32 :: "int \<Rightarrow> bool" where
  "int32 v \<equiv> - (2 ^ 31) \<le> v \<and> v < 2 ^ 31"

lemma entry_apart:
  fixes i j :: nat
  shows "i \<noteq> j \<Longrightarrow> i * 44 + 44 \<le> j * 44 \<or> j * 44 + 44 \<le> i * 44"
  by linarith

lemma get_d_inumber_set_d_inumber [mem_simps]:
  assumes "int32 v"
  shows "get_d_inumber (set_d_inumber a i v m) a j = (if i = j then v else get_d_inumber m a j)"
proof (cases "i = j")
  case True
  with assms show ?thesis
    by (simp add: get_d_inumber_def set_d_inumber_def mem_read_write_same dec_enc_int)
next
  case False
  from entry_apart [OF this] show ?thesis
    using False by (auto simp: get_d_inumber_def set_d_inumber_def mem_read_write_disjoint)
qed

lemma get_d_name_set_d_inumber [mem_simps]:
  "get_d_name (set_d_inumber a i v m) a j = get_d_name m a j"
proof -
  have "i = j \<or> i * 44 + 44 \<le> j * 44 \<or> j * 44 + 44 \<le> i * 44"
    using entry_apart by blast
  then show ?thesis
    by (auto simp: get_d_name_def set_d_inumber_def intro!: mem_read_write_disjoint)
qed

lemma get_d_inumber_set_d_name [mem_simps]:
  assumes "length name = MAX_FILE_NAME"
  shows "get_d_inumber (set_d_name a i name m) a j = get_d_inumber m a j"
proof -
  have "i = j \<or> i * 44 + 44 \<le> j * 44 \<or> j * 44 + 44 \<le> i * 44"
    using entry_apart by blast
  then show ?thesis
    using assms by (auto simp: get_d_inumber_def set_d_name_def mem_read_write_disjoint)
qed

lemma get_d_name_set_d_name [mem_simps]:
  assumes "length name = MAX_FILE_NAME"
  shows "get_d_name (set_d_name a i name m) a j = (if i = j then name else get_d_name m a j)"
proof (cases "i = j")
  case True
  with assms show ?thesis
    by (simp add: get_d_name_def set_d_name_def mem_read_write_same)
next
  case False
  from entry_apart [OF this] show ?thesis
    using False assms by (auto simp: get_d_name_def set_d_name_def mem_read_write_disjoint)
qed

text \<open>The entries of a block depend on the bytes of that block only.\<close>

lemma get_d_inumber_cong:
  assumes "\<forall>i<BLOCK_SIZE. m (a + i) = m' (a + i)" and "j < MAX_DIR_ENTRIES"
  shows "get_d_inumber m a j = get_d_inumber m' a j"
proof -
  have "mem_read m (a + j * 44 + 40) 4 = mem_read m' (a + j * 44 + 40) 4"
  proof (rule mem_read_cong)
    fix i :: nat assume "i < 4"
    then show "m (a + j * 44 + 40 + i) = m' (a + j * 44 + 40 + i)"
      using assms(1) [rule_format, of "j * 44 + 40 + i"] assms(2) by (simp add: add.assoc)
  qed
  then show ?thesis by (simp add: get_d_inumber_def)
qed

lemma get_d_name_cong:
  assumes "\<forall>i<BLOCK_SIZE. m (a + i) = m' (a + i)" and "j < MAX_DIR_ENTRIES"
  shows "get_d_name m a j = get_d_name m' a j"
proof -
  have "mem_read m (a + j * 44) 40 = mem_read m' (a + j * 44) 40"
  proof (rule mem_read_cong)
    fix i :: nat assume "i < 40"
    then show "m (a + j * 44 + i) = m' (a + j * 44 + i)"
      using assms(1) [rule_format, of "j * 44 + i"] assms(2) by (simp add: add.assoc)
  qed
  then show ?thesis by (simp add: get_d_name_def)
qed

text \<open>The loop of \<open>inode_create\<close> that labels every entry of a new directory empty.\<close>

lemma get_d_inumber_fold_set:
  "get_d_inumber (fold (\<lambda>i. set_d_inumber a i (-1)) [0..<n] m) a j
     = (if j < n then -1 else get_d_inumber m a j)"
  by (induction n) (auto simp: get_d_inumber_set_d_inumber)

lemma set_d_entry_other:
  assumes "i < MAX_DIR_ENTRIES" and "length name = MAX_FILE_NAME"
    and "j < a \<or> a + BLOCK_SIZE \<le> j"
  shows "set_d_name a i name (set_d_inumber a i v m) j = m j"
  using assms by (auto simp: set_d_name_def set_d_inumber_def mem_write_other)

section \<open>Names\<close>

text \<open>
  An entry holds at most 39 characters of a name and its lookup compares 40, so a stored
  name is found again exactly when it has at most 39.
\<close>

definition stored_name :: "string \<Rightarrow> string" where
  "stored_name name = take (MAX_FILE_NAME - 1) (cstr name)"

definition name_matches :: "memory \<Rightarrow> nat \<Rightarrow> nat \<Rightarrow> string \<Rightarrow> bool" where
  "name_matches m a k name \<longleftrightarrow>
     take MAX_FILE_NAME (cstr (get_d_name m a k)) = take MAX_FILE_NAME (cstr name)"

lemma length_entry_name [simp]: "length (entry_name sub) = MAX_FILE_NAME"
  by (simp add: entry_name_def)

lemma cstr_entry_name [simp]: "cstr (entry_name sub) = stored_name sub"
  by (simp only: entry_name_def cstr_strncpy stored_name_def)

lemma length_stored_name: "length (stored_name sub) \<le> 39"
  by (simp add: stored_name_def)

lemma name_matches_set:
  "name_matches (set_d_name a k (entry_name sub) m) a k name
     \<longleftrightarrow> stored_name sub = take MAX_FILE_NAME (cstr name)"
  using length_stored_name [of sub] by (simp add: name_matches_def get_d_name_set_d_name)

lemma stored_name_eq_iff:
  "strlen name < MAX_FILE_NAME \<Longrightarrow> strlen sub < MAX_FILE_NAME
     \<Longrightarrow> stored_name sub = take MAX_FILE_NAME (cstr name) \<longleftrightarrow> cstr sub = cstr name"
  by (simp add: stored_name_def strlen_def)

lemma stored_name_long:
  "strlen name \<ge> MAX_FILE_NAME \<Longrightarrow> stored_name sub \<noteq> take MAX_FILE_NAME (cstr name)"
proof
  assume "strlen name \<ge> MAX_FILE_NAME" and "stored_name sub = take MAX_FILE_NAME (cstr name)"
  then have "length (stored_name sub) = MAX_FILE_NAME" by (simp add: strlen_def)
  then show False by (simp add: stored_name_def)
qed

section \<open>Lookup and insertion by entries\<close>

text \<open>The entry a lookup stops at, for the directory in the block at address \<open>a\<close>.\<close>

definition matching_entry :: "memory \<Rightarrow> nat \<Rightarrow> string \<Rightarrow> nat \<Rightarrow> bool" where
  "matching_entry m a name k \<longleftrightarrow> get_d_inumber m a k \<noteq> -1 \<and> name_matches m a k name"

definition dir_find :: "memory \<Rightarrow> nat \<Rightarrow> string \<Rightarrow> int" where
  "dir_find m a name =
     (case first_index (matching_entry m a name) 0 MAX_DIR_ENTRIES of
        Some k \<Rightarrow> get_d_inumber m a k | None \<Rightarrow> -1)"

definition dir_free :: "memory \<Rightarrow> nat \<Rightarrow> nat option" where
  "dir_free m a = first_index (\<lambda>k. get_d_inumber m a k = -1) 0 MAX_DIR_ENTRIES"

lemma find_in_dir_eq:
  assumes "valid_inumber d" and "i_node_type (inode_table s (nat d)) = T_DIRECTORY"
    and "data_block_get (i_data_block (inode_table s (nat d))) = Some a"
  shows "find_in_dir d name s = dir_find (fs_data s) a name"
proof -
  have "(\<lambda>i. get_d_inumber (fs_data s) a i \<noteq> -1 \<and>
      strncmp_eq MAX_FILE_NAME (get_d_name (fs_data s) a i) name) = matching_entry (fs_data s) a name"
    by (simp add: fun_eq_iff matching_entry_def name_matches_def strncmp_eq_iff)
  with assms show ?thesis by (simp add: find_in_dir_def dir_find_def)
qed

lemma add_dir_entry_eq:
  assumes "valid_inumber d" and "valid_inumber i"
    and "i_node_type (inode_table s (nat d)) = T_DIRECTORY"
    and "data_block_get (i_data_block (inode_table s (nat d))) = Some a"
  shows "add_dir_entry d i name s =
    (if strlen name = 0 then (-1, s)
     else case dir_free (fs_data s) a of
            Some k \<Rightarrow> (0, s\<lparr>fs_data := set_d_name a k (entry_name name)
                             (set_d_inumber a k i (fs_data s))\<rparr>)
          | None \<Rightarrow> (-1, s))"
  using assms by (simp add: add_dir_entry_def dir_free_def)

lemma dir_find_cong:
  assumes "\<forall>i<BLOCK_SIZE. m (a + i) = m' (a + i)"
  shows "dir_find m a name = dir_find m' a name"
proof -
  have eq: "first_index (matching_entry m a name) 0 MAX_DIR_ENTRIES
      = first_index (matching_entry m' a name) 0 MAX_DIR_ENTRIES"
    by (rule first_index_cong)
      (simp add: matching_entry_def name_matches_def
        get_d_inumber_cong [OF assms] get_d_name_cong [OF assms])
  show ?thesis
  proof (cases "first_index (matching_entry m' a name) 0 MAX_DIR_ENTRIES")
    case None
    with eq show ?thesis by (simp add: dir_find_def)
  next
    case (Some k)
    then have "k < MAX_DIR_ENTRIES" by (simp add: first_index_eq_Some)
    from get_d_inumber_cong [OF assms this] Some eq show ?thesis by (simp add: dir_find_def)
  qed
qed

lemma dir_find_neg1: "dir_find m a name = -1 \<longleftrightarrow> (\<forall>k<MAX_DIR_ENTRIES. \<not> matching_entry m a name k)"
  by (auto simp: dir_find_def first_index_eq_Some first_index_eq_None matching_entry_def
      split: option.splits)

lemma dir_find_entry:
  assumes "dir_find m a name \<noteq> -1"
  obtains k where "k < MAX_DIR_ENTRIES" and "matching_entry m a name k"
    and "get_d_inumber m a k = dir_find m a name"
  using assms
  by (auto simp: dir_find_def first_index_eq_Some split: option.splits)

text \<open>
  Inserting a name that was not found: the lookup of that name now gives the new number,
  and every other lookup of at most 39 characters is unchanged.
\<close>

lemma dir_find_insert:
  assumes free: "dir_free m a = Some k" and i: "int32 i" "i \<noteq> -1"
    and new: "dir_find m a sub = -1" and len: "strlen sub < MAX_FILE_NAME"
    and m': "m' = set_d_name a k (entry_name sub) (set_d_inumber a k i m)"
  shows "strlen name < MAX_FILE_NAME
    \<Longrightarrow> dir_find m' a name = (if cstr name = cstr sub then i else dir_find m a name)"
proof -
  assume name: "strlen name < MAX_FILE_NAME"
  have k: "k < MAX_DIR_ENTRIES" "get_d_inumber m a k = -1"
    using free by (auto simp: dir_free_def first_index_eq_Some)
  have inum: "get_d_inumber (set_d_name a k (entry_name sub) (set_d_inumber a k i m)) a j
      = (if j = k then i else get_d_inumber m a j)" for j
    using i by (simp add: get_d_inumber_set_d_name get_d_inumber_set_d_inumber)
  have entry: "matching_entry m' a name j \<longleftrightarrow>
      (if j = k then cstr sub = cstr name else matching_entry m a name j)" for j
    using i name len
    by (auto simp: matching_entry_def inum m' name_matches_set stored_name_eq_iff)
      (auto simp: name_matches_def get_d_name_set_d_name get_d_name_set_d_inumber)
  show ?thesis
  proof (cases "cstr name = cstr sub")
    case True
    have "matching_entry m a name = matching_entry m a sub"
      by (simp add: fun_eq_iff matching_entry_def name_matches_def True)
    with new have "\<forall>j<MAX_DIR_ENTRIES. \<not> matching_entry m a name j"
      by (simp add: dir_find_neg1)
    then have "first_index (matching_entry m' a name) 0 MAX_DIR_ENTRIES = Some k"
      using k True by (simp add: first_index_eq_Some entry)
    then show ?thesis using True inum by (simp add: dir_find_def m')
  next
    case False
    have "matching_entry m' a name j = matching_entry m a name j" for j
      using entry [of j] False k by (auto simp: matching_entry_def)
    then have eq: "matching_entry m' a name = matching_entry m a name" by blast
    show ?thesis
    proof (cases "first_index (matching_entry m a name) 0 MAX_DIR_ENTRIES")
      case None
      with eq False show ?thesis by (simp add: dir_find_def)
    next
      case (Some j)
      then have "j \<noteq> k" using k by (auto simp: first_index_eq_Some matching_entry_def)
      with Some eq False inum [of j] show ?thesis by (simp add: dir_find_def m')
    qed
  qed
qed

text \<open>A name of 40 or more characters never matches an entry that \<open>add_dir_entry\<close> wrote.\<close>

lemma dir_find_insert_long:
  assumes free: "dir_free m a = Some k" and "int32 i"
    and new: "dir_find m a sub = -1" and long: "strlen sub \<ge> MAX_FILE_NAME"
  shows "dir_find (set_d_name a k (entry_name sub) (set_d_inumber a k i m)) a sub
    = -1"
proof -
  let ?m' = "set_d_name a k (entry_name sub) (set_d_inumber a k i m)"
  have "\<not> matching_entry ?m' a sub j" if "j < MAX_DIR_ENTRIES" for j
  proof (cases "j = k")
    case True
    then show ?thesis
      using stored_name_long [OF long] True by (simp add: matching_entry_def name_matches_set)
  next
    case False
    then have "matching_entry ?m' a sub j = matching_entry m a sub j"
      using \<open>int32 i\<close>
      by (simp add: matching_entry_def name_matches_def get_d_name_set_d_name
          get_d_name_set_d_inumber get_d_inumber_set_d_name get_d_inumber_set_d_inumber)
    with new that show ?thesis by (simp add: dir_find_neg1)
  qed
  then show ?thesis by (simp add: dir_find_neg1)
qed

end
