(* ===== verification/FS_Operations.thy ===== *)
theory FS_Operations
  imports FS_Directory
begin

text \<open>
  The operations of the file system library: \<open>fs/operations.c\<close>. The \<open>unsynchronized\<close>
  functions work on the \<^typ>\<open>fs_state\<close>; the public ones also on the two mutexes, the
  destroy flag and the count of open files. Waiting for the last close
  (\<open>tfs_destroy_after_all_closed\<close>) needs other threads and is modelled in \<open>FS_Shutdown\<close>.

  A path name is \<^const>\<open>None\<close> for \<open>NULL\<close>, else the bytes the pointer points to. A buffer is
  the list of its bytes. Reading or writing outside an object is \<^const>\<open>Memory_Fault\<close>.
\<close>

unbundle bit_operations_syntax

section \<open>Lookup and open\<close>

abbreviation (input) TFS_O_CREAT :: int where "TFS_O_CREAT \<equiv> 1"
abbreviation (input) TFS_O_TRUNC :: int where "TFS_O_TRUNC \<equiv> 2"
abbreviation (input) TFS_O_APPEND :: int where "TFS_O_APPEND \<equiv> 4"

definition valid_pathname :: "string option \<Rightarrow> bool" where
  "valid_pathname name =
     (case name of None \<Rightarrow> False | Some n \<Rightarrow> strlen n > 1 \<and> char_at n 0 = CHR ''/'')"

definition tfs_lookup_unsynchronized :: "string option \<Rightarrow> fs_state \<Rightarrow> int" where
  "tfs_lookup_unsynchronized name s =
     (if \<not> valid_pathname name then -1
      else find_in_dir ROOT_DIR_INUM (tl (the name)) s)"

text \<open>Truncation in \<open>tfs_open\<close>: false when freeing the data block failed.\<close>

definition truncate_inode :: "nat \<Rightarrow> fs_state \<Rightarrow> bool \<times> fs_state" where
  "truncate_inode inode s =
     (if i_size (inode_table s inode) > 0 then
        (let (r, s1) = data_block_free (i_data_block (inode_table s inode)) s
         in if r = -1 then (False, s1)
            else (True, inode_update inode (\<lambda>n. n\<lparr>i_size := 0\<rparr>) s1))
      else (True, s))"

text \<open>\<open>name + 1\<close>, which must stay inside the object \<open>name\<close> points to.\<close>

definition skip_char :: "string option \<Rightarrow> fault + string" where
  "skip_char name =
     (case name of None \<Rightarrow> Inl Memory_Fault
      | Some n \<Rightarrow> if n = [] then Inl Memory_Fault else Inr (tl n))"

definition tfs_open_unsynchronized ::
    "string option \<Rightarrow> int \<Rightarrow> fs_state \<Rightarrow> fault + int \<times> fs_state" where
  "tfs_open_unsynchronized name flags s =
     (let inum = tfs_lookup_unsynchronized name s in
      if inum \<ge> 0 then
        (case inode_get inum of
           None \<Rightarrow> Inr (-1, s)
         | Some inode \<Rightarrow>
             (let (ok, s1) = (if flags AND TFS_O_TRUNC \<noteq> 0 then truncate_inode inode s
                              else (True, s))
              in if \<not> ok then Inr (-1, s1)
                 else Inr (add_to_open_file_table inum
                   (if flags AND TFS_O_APPEND \<noteq> 0 then i_size (inode_table s1 inode) else 0) s1)))
      else if flags AND TFS_O_CREAT \<noteq> 0 then
        (let (inum, s1) = inode_create T_FILE s in
         if inum = -1 then Inr (-1, s1)
         else andthen (skip_char name) (\<lambda>sub_name.
           (let (r, s2) = add_dir_entry ROOT_DIR_INUM inum sub_name s1 in
            if r = -1 then Inr (-1, snd (inode_delete inum s2))
            else Inr (add_to_open_file_table inum 0 s2))))
      else Inr (-1, s))"

section \<open>Write and read\<close>

text \<open>Whether \<open>memcpy\<close> between a buffer and \<open>fs_data\<close> stays inside both.\<close>

definition copy_in_bounds :: "nat \<Rightarrow> nat \<Rightarrow> string \<Rightarrow> bool" where
  "copy_in_bounds a n buffer \<longleftrightarrow> n \<le> length buffer \<and> a + n \<le> BLOCK_SIZE * DATA_BLOCKS"

definition set_offset :: "nat \<Rightarrow> size_t \<Rightarrow> fs_state \<Rightarrow> fs_state" where
  "set_offset h off s = s\<lparr>open_file_table :=
     (open_file_table s)(h := (open_file_table s h)\<lparr>of_offset := off\<rparr>)\<rparr>"

text \<open>\<open>if (to_write + file->of_offset > BLOCK_SIZE) to_write = BLOCK_SIZE - file->of_offset\<close>.\<close>

definition clip_to_block :: "size_t \<Rightarrow> size_t \<Rightarrow> size_t" where
  "clip_to_block to_write of_off =
     (if to_write + of_off > of_nat BLOCK_SIZE then of_nat BLOCK_SIZE - of_off else to_write)"

text \<open>The first write to an empty file gives it a block (the result of the allocation is not checked).\<close>

definition alloc_if_empty :: "nat \<Rightarrow> fs_state \<Rightarrow> fs_state" where
  "alloc_if_empty inode s =
     (if i_size (inode_table s inode) = 0 then
        (let (b, s1) = data_block_alloc s in inode_update inode (\<lambda>n. n\<lparr>i_data_block := b\<rparr>) s1)
      else s)"

definition tfs_write_unsynchronized ::
    "int \<Rightarrow> string \<Rightarrow> size_t \<Rightarrow> fs_state \<Rightarrow> fault + int \<times> fs_state" where
  "tfs_write_unsynchronized fhandle buffer len s =
     (case get_open_file_entry fhandle of
        None \<Rightarrow> Inr (-1, s)
      | Some file \<Rightarrow>
     (case inode_get (of_inumber (open_file_table s file)) of
        None \<Rightarrow> Inr (-1, s)
      | Some inode \<Rightarrow>
     (let off = of_offset (open_file_table s file);
          to_write = clip_to_block len off
      in if to_write > 0 then
           (let s1 = alloc_if_empty inode s in
            case data_block_get (i_data_block (inode_table s1 inode)) of
              None \<Rightarrow> Inr (-1, s1)
            | Some block \<Rightarrow>
                if \<not> copy_in_bounds (block + unat off) (unat to_write) buffer
                then Inl Memory_Fault
                else
                  (let s2 = s1\<lparr>fs_data := mem_write (fs_data s1) (block + unat off)
                                (take (unat to_write) buffer)\<rparr>;
                       s3 = set_offset file (off + to_write) s2;
                       s4 = (if of_offset (open_file_table s3 file) > i_size (inode_table s3 inode)
                             then inode_update inode
                               (\<lambda>n. n\<lparr>i_size := of_offset (open_file_table s3 file)\<rparr>) s3
                             else s3)
                   in Inr (sint to_write, s4)))
         else Inr (sint to_write, s))))"

text \<open>
  \<open>size_t to_read = inode->i_size - file->of_offset; if (to_read > len) to_read = len\<close>: the
  subtraction is of unsigned numbers.
\<close>

definition bytes_to_read :: "size_t \<Rightarrow> size_t \<Rightarrow> size_t \<Rightarrow> size_t" where
  "bytes_to_read isize of_off len = (if isize - of_off > len then len else isize - of_off)"

definition tfs_read_unsynchronized ::
    "int \<Rightarrow> string \<Rightarrow> size_t \<Rightarrow> fs_state \<Rightarrow> fault + int \<times> string \<times> fs_state" where
  "tfs_read_unsynchronized fhandle buffer len s =
     (case get_open_file_entry fhandle of
        None \<Rightarrow> Inr (-1, buffer, s)
      | Some file \<Rightarrow>
     (case inode_get (of_inumber (open_file_table s file)) of
        None \<Rightarrow> Inr (-1, buffer, s)
      | Some inode \<Rightarrow>
     (let off = of_offset (open_file_table s file);
          to_read = bytes_to_read (i_size (inode_table s inode)) off len
      in if to_read > 0 then
           (case data_block_get (i_data_block (inode_table s inode)) of
              None \<Rightarrow> Inr (-1, buffer, s)
            | Some block \<Rightarrow>
                if \<not> copy_in_bounds (block + unat off) (unat to_read) buffer
                then Inl Memory_Fault
                else Inr (sint to_read,
                  mem_read (fs_data s) (block + unat off) (unat to_read) @ drop (unat to_read) buffer,
                  set_offset file (off + to_read) s))
         else Inr (sint to_read, buffer, s))))"

section \<open>The synchronised operations\<close>

datatype destroy_call_state_t = INIT | DESTROY

datatype lock_id = Single_Global_Lock | Called_Destroy_Mutex

text \<open>
  \<open>pthread_rets\<close> holds the results of the coming mutex calls, for the error branches of the
  code; past its end every call succeeds. \<open>stray_unlocks\<close> counts the unlocks of a mutex
  that was not locked, whose behaviour POSIX leaves undefined for a default mutex (glibc's
  leaves the mutex unlocked and answers 0, as here). \<open>broadcasts\<close> counts the broadcasts on
  \<open>called_destroy_cond\<close>.
\<close>

record ops_state =
  fs :: fs_state
  called_destroy :: destroy_call_state_t
  open_files :: int
  locked :: "lock_id \<Rightarrow> bool"
  pthread_rets :: "int list"
  stray_unlocks :: nat
  broadcasts :: nat

definition static_ops :: ops_state where
  "static_ops = \<lparr>fs = static_state, called_destroy = INIT, open_files = 0,
     locked = (\<lambda>_. False), pthread_rets = [], stray_unlocks = 0, broadcasts = 0\<rparr>"

definition pthread_ret :: "ops_state \<Rightarrow> int \<times> ops_state" where
  "pthread_ret s = (case pthread_rets s of [] \<Rightarrow> (0, s) | r # rs \<Rightarrow> (r, s\<lparr>pthread_rets := rs\<rparr>))"

definition pthread_mutex_lock :: "lock_id \<Rightarrow> ops_state \<Rightarrow> fault + int \<times> ops_state" where
  "pthread_mutex_lock l s =
     (let (r, s1) = pthread_ret s in
      if r \<noteq> 0 then Inr (r, s1)
      else if locked s1 l then Inl Self_Deadlock
      else Inr (0, s1\<lparr>locked := (locked s1)(l := True)\<rparr>))"

definition pthread_mutex_unlock :: "lock_id \<Rightarrow> ops_state \<Rightarrow> int \<times> ops_state" where
  "pthread_mutex_unlock l s =
     (let (r, s1) = pthread_ret s in
      if r \<noteq> 0 then (r, s1)
      else if locked s1 l then (0, s1\<lparr>locked := (locked s1)(l := False)\<rparr>)
      else (0, s1\<lparr>stray_unlocks := Suc (stray_unlocks s1)\<rparr>))"

definition tfs_init :: "ops_state \<Rightarrow> int \<times> ops_state" where
  "tfs_init s =
     (let (root, f) = inode_create T_DIRECTORY (state_init (fs s));
          s1 = s\<lparr>called_destroy := INIT, open_files := 0, fs := f\<rparr>
      in if root \<noteq> ROOT_DIR_INUM then (-1, s1) else (0, s1))"

definition tfs_destroy :: "ops_state \<Rightarrow> int \<times> ops_state" where
  "tfs_destroy s = (0, s\<lparr>fs := state_destroy (fs s)\<rparr>)"

definition tfs_lookup :: "string option \<Rightarrow> ops_state \<Rightarrow> fault + int \<times> ops_state" where
  "tfs_lookup name s =
     andthen (pthread_mutex_lock Single_Global_Lock s) (\<lambda>(r1, s1).
       if r1 \<noteq> 0 then Inr (-1, s1)
       else
         (let ret = tfs_lookup_unsynchronized name (fs s1);
              (r2, s2) = pthread_mutex_unlock Single_Global_Lock s1
          in if r2 \<noteq> 0 then Inr (-1, s2) else Inr (ret, s2)))"

text \<open>The two unlocks at the exits of \<open>tfs_open\<close>, then \<open>return ret\<close>.\<close>

definition unlock_destroy_global :: "int \<Rightarrow> ops_state \<Rightarrow> int \<times> ops_state" where
  "unlock_destroy_global ret s =
     (let (r1, s1) = pthread_mutex_unlock Called_Destroy_Mutex s in
      if r1 \<noteq> 0 then (-1, s1)
      else
        (let (r2, s2) = pthread_mutex_unlock Single_Global_Lock s1 in
         if r2 \<noteq> 0 then (-1, s2) else (ret, s2)))"

definition tfs_open :: "string option \<Rightarrow> int \<Rightarrow> ops_state \<Rightarrow> fault + int \<times> ops_state" where
  "tfs_open name flags s =
     andthen (pthread_mutex_lock Single_Global_Lock s) (\<lambda>(r1, s1).
       if r1 \<noteq> 0 then Inr (-1, s1)
       else andthen (pthread_mutex_lock Called_Destroy_Mutex s1) (\<lambda>(r2, s2).
         if r2 \<noteq> 0 then Inr (-1, s2)
         else if called_destroy s2 = DESTROY then Inr (unlock_destroy_global (-1) s2)
         else andthen (tfs_open_unsynchronized name flags (fs s2)) (\<lambda>(ret, f).
           let s3 = s2\<lparr>fs := f\<rparr> in
           if ret = -1 then Inr (unlock_destroy_global (-1) s3)
           else Inr (unlock_destroy_global ret (s3\<lparr>open_files := open_files s3 + 1\<rparr>)))))"

text \<open>The two unlocks of \<open>tfs_close\<close>: false when one of them failed.\<close>

definition unlock_global_destroy :: "ops_state \<Rightarrow> bool \<times> ops_state" where
  "unlock_global_destroy s =
     (let (r1, s1) = pthread_mutex_unlock Single_Global_Lock s in
      if r1 \<noteq> 0 then (False, s1)
      else
        (let (r2, s2) = pthread_mutex_unlock Called_Destroy_Mutex s1 in
         (r2 = 0, s2)))"

definition tfs_close :: "int \<Rightarrow> ops_state \<Rightarrow> fault + int \<times> ops_state" where
  "tfs_close fhandle s =
     andthen (pthread_mutex_lock Single_Global_Lock s) (\<lambda>(r1, s1).
       if r1 \<noteq> 0 then Inr (-1, s1)
       else andthen (pthread_mutex_lock Called_Destroy_Mutex s1) (\<lambda>(r2, s2).
         if r2 \<noteq> 0 then Inr (-1, s2)
         else
           (let (r, f) = remove_from_open_file_table fhandle (fs s2);
                s3 = s2\<lparr>fs := f\<rparr>;
                (ok, s4) = (if r = -1 then unlock_global_destroy s3 else (True, s3))
            in if \<not> ok then Inr (-1, s4)
               else
                 (let s5 = s4\<lparr>open_files := open_files s4 - 1\<rparr>;
                      s6 = (if open_files s5 = 0 \<and> called_destroy s5 = DESTROY
                            then s5\<lparr>broadcasts := Suc (broadcasts s5)\<rparr> else s5);
                      (ok', s7) = unlock_global_destroy s6
                  in Inr (if ok' then r else -1, s7)))))"

definition tfs_write ::
    "int \<Rightarrow> string \<Rightarrow> size_t \<Rightarrow> ops_state \<Rightarrow> fault + int \<times> ops_state" where
  "tfs_write fhandle buffer to_write s =
     andthen (pthread_mutex_lock Single_Global_Lock s) (\<lambda>(r1, s1).
       if r1 \<noteq> 0 then Inr (-1, s1)
       else andthen (tfs_write_unsynchronized fhandle buffer to_write (fs s1)) (\<lambda>(ret, f).
         let (r2, s2) = pthread_mutex_unlock Single_Global_Lock (s1\<lparr>fs := f\<rparr>)
         in if r2 \<noteq> 0 then Inr (-1, s2) else Inr (ret, s2)))"

definition tfs_read ::
    "int \<Rightarrow> string \<Rightarrow> size_t \<Rightarrow> ops_state \<Rightarrow> fault + int \<times> string \<times> ops_state" where
  "tfs_read fhandle buffer len s =
     andthen (pthread_mutex_lock Single_Global_Lock s) (\<lambda>(r1, s1).
       if r1 \<noteq> 0 then Inr (-1, buffer, s1)
       else andthen (tfs_read_unsynchronized fhandle buffer len (fs s1)) (\<lambda>(ret, buffer', f).
         let (r2, s2) = pthread_mutex_unlock Single_Global_Lock (s1\<lparr>fs := f\<rparr>)
         in if r2 \<noteq> 0 then Inr (-1, buffer', s2) else Inr (ret, buffer', s2)))"

end
