(* ===== verification/FS_Invariant.thy ===== *)
theory FS_Invariant
  imports FS_Operations
begin

text \<open>
  The well-formedness invariant of the file system state, and its preservation by every
  operation of \<open>fs/operations.c\<close> on the state. It says what the tables have to agree on:
  live i-nodes own distinct blocks and exactly the taken blocks are owned, the root is a
  directory whose entries name each live file once, and an open handle refers to a file.
\<close>

section \<open>The invariant\<close>

definition live :: "fs_state \<Rightarrow> nat \<Rightarrow> bool" where
  "live s i \<longleftrightarrow> i < INODE_TABLE_SIZE \<and> freeinode_ts s i = TAKEN"

definition has_data :: "fs_state \<Rightarrow> nat \<Rightarrow> bool" where
  "has_data s i \<longleftrightarrow> live s i \<and> i_size (inode_table s i) \<noteq> 0"

definition block_of :: "fs_state \<Rightarrow> nat \<Rightarrow> nat" where
  "block_of s i = nat (i_data_block (inode_table s i))"

definition block_addr :: "fs_state \<Rightarrow> nat \<Rightarrow> nat" where
  "block_addr s i = block_of s i * BLOCK_SIZE"

text \<open>The inumber in entry \<open>k\<close> of the root directory.\<close>

definition entry :: "fs_state \<Rightarrow> nat \<Rightarrow> int" where
  "entry s k = get_d_inumber (fs_data s) (block_addr s 0) k"

definition open_handle :: "fs_state \<Rightarrow> nat \<Rightarrow> bool" where
  "open_handle s h \<longleftrightarrow> h < MAX_OPEN_FILES \<and> free_open_file_entries s h = TAKEN"

definition inode_inv :: "fs_state \<Rightarrow> bool" where
  "inode_inv s \<longleftrightarrow> (\<forall>i. live s i \<longrightarrow> unat (i_size (inode_table s i)) \<le> BLOCK_SIZE)
     \<and> (\<forall>i. live s i \<longrightarrow> i \<noteq> 0 \<longrightarrow> i_node_type (inode_table s i) = T_FILE)
     \<and> (\<forall>i. has_data s i \<longrightarrow> valid_block_number (i_data_block (inode_table s i)))"

definition block_inv :: "fs_state \<Rightarrow> bool" where
  "block_inv s \<longleftrightarrow>
     (\<forall>i j. has_data s i \<longrightarrow> has_data s j \<longrightarrow> block_of s i = block_of s j \<longrightarrow> i = j)
     \<and> (\<forall>b<DATA_BLOCKS. free_blocks s b = TAKEN \<longleftrightarrow> (\<exists>i. has_data s i \<and> block_of s i = b))"

definition root_inv :: "fs_state \<Rightarrow> bool" where
  "root_inv s \<longleftrightarrow> has_data s 0 \<and> i_node_type (inode_table s 0) = T_DIRECTORY"

definition dir_inv :: "fs_state \<Rightarrow> bool" where
  "dir_inv s \<longleftrightarrow>
     (\<forall>k<MAX_DIR_ENTRIES. entry s k \<noteq> -1 \<longrightarrow> (\<exists>i. entry s k = int i \<and> i \<noteq> 0 \<and> live s i))
     \<and> (\<forall>i. live s i \<longrightarrow> i \<noteq> 0 \<longrightarrow> (\<exists>!k. k < MAX_DIR_ENTRIES \<and> entry s k = int i))"

definition handle_inv :: "fs_state \<Rightarrow> bool" where
  "handle_inv s \<longleftrightarrow> (\<forall>h. open_handle s h \<longrightarrow>
     (\<exists>i. of_inumber (open_file_table s h) = int i \<and> i \<noteq> 0 \<and> live s i))"

definition fs_inv :: "fs_state \<Rightarrow> bool" where
  "fs_inv s \<longleftrightarrow> inode_inv s \<and> block_inv s \<and> root_inv s \<and> dir_inv s \<and> handle_inv s"

text \<open>
  The offset of a handle lies within its file. Truncating a file that is open elsewhere
  breaks this, so it is kept apart from \<^const>\<open>fs_inv\<close>.
\<close>

definition handle_inode :: "fs_state \<Rightarrow> nat \<Rightarrow> nat" where
  "handle_inode s h = nat (of_inumber (open_file_table s h))"

definition offset_ok :: "fs_state \<Rightarrow> nat \<Rightarrow> bool" where
  "offset_ok s h \<longleftrightarrow>
     of_offset (open_file_table s h) \<le> i_size (inode_table s (handle_inode s h))"

definition offsets_inv :: "fs_state \<Rightarrow> bool" where
  "offsets_inv s \<longleftrightarrow> (\<forall>h. open_handle s h \<longrightarrow> offset_ok s h)"

lemmas inv_parts = inode_inv_def block_inv_def root_inv_def dir_inv_def handle_inv_def

section \<open>Consequences\<close>

lemma fs_inv_parts:
  assumes "fs_inv s"
  shows "inode_inv s" and "block_inv s" and "root_inv s" and "dir_inv s" and "handle_inv s"
  using assms by (auto simp: fs_inv_def)

lemma inv_size_le:
  "fs_inv s \<Longrightarrow> live s i \<Longrightarrow> unat (i_size (inode_table s i)) \<le> BLOCK_SIZE"
  by (auto simp: fs_inv_def inode_inv_def)

lemma inv_block:
  assumes "fs_inv s" and "has_data s i"
  shows "i_data_block (inode_table s i) = int (block_of s i)" and "block_of s i < DATA_BLOCKS"
    and "data_block_get (i_data_block (inode_table s i)) = Some (block_addr s i)"
  using assms
  by (auto simp: fs_inv_def inode_inv_def valid_block_number_def block_of_def data_block_get_def
      block_addr_def)

lemma inv_blocks_apart:
  assumes "fs_inv s" and "has_data s i" and "has_data s j" and "i \<noteq> j"
  shows "block_addr s i + BLOCK_SIZE \<le> block_addr s j \<or> block_addr s j + BLOCK_SIZE \<le> block_addr s i"
proof -
  have "block_of s i \<noteq> block_of s j"
    using assms by (auto simp: fs_inv_def block_inv_def)
  then show ?thesis by (simp add: block_addr_def) linarith
qed

lemma inv_root:
  assumes "fs_inv s"
  shows "has_data s 0" and "live s 0" and "i_node_type (inode_table s 0) = T_DIRECTORY"
  using assms by (auto simp: fs_inv_def root_inv_def has_data_def)

lemma inv_handle:
  assumes "fs_inv s" and "open_handle s h"
  shows "of_inumber (open_file_table s h) = int (handle_inode s h)"
    and "live s (handle_inode s h)" and "handle_inode s h \<noteq> 0"
  using assms by (auto simp: fs_inv_def handle_inv_def handle_inode_def)

lemma inv_entry:
  assumes "fs_inv s" and "k < MAX_DIR_ENTRIES" and "entry s k \<noteq> -1"
  obtains i where "entry s k = int i" and "i \<noteq> 0" and "live s i"
  using assms by (auto simp: fs_inv_def dir_inv_def)

lemma inv_slot:
  assumes "fs_inv s" and "live s i" and "i \<noteq> 0"
  shows "\<exists>!k. k < MAX_DIR_ENTRIES \<and> entry s k = int i"
  using assms by (auto simp: fs_inv_def dir_inv_def)

lemma live_less: "live s i \<Longrightarrow> i < INODE_TABLE_SIZE"
  by (simp add: live_def)

lemma inode_get_live: "live s i \<Longrightarrow> inode_get (int i) = Some i"
  by (simp add: inode_get_def valid_inumber_def live_def)

lemma get_open_file_entry_open: "open_handle s h \<Longrightarrow> get_open_file_entry (int h) = Some h"
  by (simp add: get_open_file_entry_def valid_file_handle_def open_handle_def)

lemma find_in_root:
  assumes "fs_inv s"
  shows "find_in_dir ROOT_DIR_INUM name s = dir_find (fs_data s) (block_addr s 0) name"
  using inv_root [OF assms] inv_block(3) [OF assms inv_root(1) [OF assms]]
  by (intro find_in_dir_eq) (auto simp: valid_inumber_def)

lemma find_in_root_cases:
  assumes "fs_inv s"
  obtains (missing) "find_in_dir ROOT_DIR_INUM name s = -1"
    | (found) i where "find_in_dir ROOT_DIR_INUM name s = int i" and "i \<noteq> 0" and "live s i"
proof (cases "find_in_dir ROOT_DIR_INUM name s = -1")
  case False
  then have "dir_find (fs_data s) (block_addr s 0) name \<noteq> -1"
    by (simp add: find_in_root [OF assms])
  then obtain k where k: "k < MAX_DIR_ENTRIES"
    and eq: "entry s k = dir_find (fs_data s) (block_addr s 0) name"
    by (rule dir_find_entry) (auto simp: entry_def)
  from eq False have "entry s k \<noteq> -1"
    by (simp add: find_in_root [OF assms])
  then obtain i where "entry s k = int i" "i \<noteq> 0" "live s i"
    using inv_entry [OF assms k] by blast
  with eq show thesis
    by (intro found [of i]) (simp_all add: find_in_root [OF assms])
qed (rule missing)

text \<open>
  There are at most as many files as directory entries, so neither i-nodes nor blocks run out.
\<close>

lemma live_count:
  assumes "fs_inv s"
  shows "card {i. live s i} \<le> Suc MAX_DIR_ENTRIES"
proof -
  let ?F = "{i. live s i \<and> i \<noteq> 0}"
  let ?slot = "\<lambda>i. THE k. k < MAX_DIR_ENTRIES \<and> entry s k = int i"
  have slot: "?slot i < MAX_DIR_ENTRIES \<and> entry s (?slot i) = int i" if "i \<in> ?F" for i
    by (rule theI') (use that inv_slot [OF assms] in blast)
  have "inj_on ?slot ?F"
  proof (rule inj_onI)
    fix i j assume "i \<in> ?F" "j \<in> ?F" "?slot i = ?slot j"
    with slot [of i] slot [of j] have "int i = int j" by metis
    then show "i = j" by simp
  qed
  moreover have "?slot ` ?F \<subseteq> {..<MAX_DIR_ENTRIES}" using slot by auto
  ultimately have "card ?F \<le> MAX_DIR_ENTRIES"
    using card_inj_on_le [of ?slot ?F "{..<MAX_DIR_ENTRIES}"] by simp
  moreover have "{i. live s i} = insert 0 ?F"
    using inv_root(2) [OF assms] by auto
  moreover have "finite ?F"
    by (rule finite_subset [of _ "{..<INODE_TABLE_SIZE}"]) (auto simp: live_def)
  ultimately show ?thesis by (simp add: card_insert_if)
qed

lemma inode_table_not_full:
  assumes "fs_inv s"
  shows "fst (inode_create T_FILE s) \<noteq> -1"
proof (rule inodes.alloc_not_full)
  show "inodes.used s < INODE_TABLE_SIZE"
    using live_count [OF assms] by (simp add: inodes.used_def live_def)
qed

lemma blocks_not_full:
  assumes "fs_inv s"
  shows "fst (data_block_alloc s) \<noteq> -1"
proof (rule blocks.alloc_not_full)
  have "{b. b < DATA_BLOCKS \<and> free_blocks s b = TAKEN} \<subseteq> block_of s ` {i. live s i}"
    using fs_inv_parts(2) [OF assms] by (auto simp: block_inv_def has_data_def)
  moreover have "finite {i. live s i}"
    by (rule finite_subset [of _ "{..<INODE_TABLE_SIZE}"]) (auto simp: live_def)
  ultimately have "card {b. b < DATA_BLOCKS \<and> free_blocks s b = TAKEN} \<le> card {i. live s i}"
    by (meson card_image_le card_mono finite_imageI order_trans)
  with live_count [OF assms] show "blocks.used s < DATA_BLOCKS"
    by (simp add: blocks.used_def)
qed

end
