(* ===== verification/FS_Preservation.thy ===== *)
theory FS_Preservation
  imports FS_Invariant
begin

text \<open>
  What each operation on the file system state does under the invariant, branch by branch,
  and that it keeps the invariant.
\<close>

section \<open>Record plumbing\<close>

lemma inode_update_simps [simp]:
  "inode_table (inode_update i f s) = (inode_table s)(i := f (inode_table s i))"
  "freeinode_ts (inode_update i f s) = freeinode_ts s"
  "fs_data (inode_update i f s) = fs_data s"
  "free_blocks (inode_update i f s) = free_blocks s"
  "open_file_table (inode_update i f s) = open_file_table s"
  "free_open_file_entries (inode_update i f s) = free_open_file_entries s"
  by (simp_all add: inode_update_def)

lemma set_offset_simps [simp]:
  "inode_table (set_offset h off s) = inode_table s"
  "freeinode_ts (set_offset h off s) = freeinode_ts s"
  "fs_data (set_offset h off s) = fs_data s"
  "free_blocks (set_offset h off s) = free_blocks s"
  "open_file_table (set_offset h off s)
     = (open_file_table s)(h := (open_file_table s h)\<lparr>of_offset := off\<rparr>)"
  "free_open_file_entries (set_offset h off s) = free_open_file_entries s"
  by (simp_all add: set_offset_def)

lemmas view_defs = live_def has_data_def block_of_def block_addr_def entry_def open_handle_def
  handle_inode_def offset_ok_def

lemma block_inv_cong:
  assumes "block_inv s" and "\<And>i. has_data t i \<longleftrightarrow> has_data s i"
    and block: "\<And>i. has_data s i \<Longrightarrow> block_of t i = block_of s i"
    and "\<And>b. b < DATA_BLOCKS \<Longrightarrow> free_blocks t b = free_blocks s b"
  shows "block_inv t"
proof -
  have "(\<exists>i. has_data s i \<and> block_of t i = b) \<longleftrightarrow> (\<exists>i. has_data s i \<and> block_of s i = b)" for b
    using block by metis
  then show ?thesis
    using assms by (simp add: block_inv_def)
qed

text \<open>
  The invariant looks at the i-node table, the flags, the root's entries and the i-nodes of
  the open handles: two states that agree there satisfy it together.
\<close>

lemma fs_inv_cong:
  assumes "fs_inv s"
    and "\<And>i. live t i \<longleftrightarrow> live s i" and "\<And>i. live s i \<Longrightarrow> inode_table t i = inode_table s i"
    and "\<And>b. b < DATA_BLOCKS \<Longrightarrow> free_blocks t b = free_blocks s b"
    and "\<And>k. k < MAX_DIR_ENTRIES \<Longrightarrow> entry t k = entry s k"
    and "\<And>h. open_handle t h \<Longrightarrow> \<exists>i. of_inumber (open_file_table t h) = int i \<and> i \<noteq> 0 \<and> live s i"
  shows "fs_inv t"
proof -
  have data: "has_data t i \<longleftrightarrow> has_data s i" for i
    using assms(2,3) by (auto simp: has_data_def)
  have block: "has_data s i \<Longrightarrow> block_of t i = block_of s i" for i
    using assms(3) by (auto simp: block_of_def has_data_def)
  have "inode_inv t"
    using fs_inv_parts(1) [OF assms(1)] assms(2,3)
    by (auto simp: inode_inv_def data) (auto simp: has_data_def)
  moreover have "block_inv t"
    by (rule block_inv_cong [OF fs_inv_parts(2) [OF assms(1)] data block assms(4)])
  moreover have "root_inv t"
    using fs_inv_parts(3) [OF assms(1)] assms(3) by (auto simp: root_inv_def data) (simp add: has_data_def)
  moreover have "dir_inv t"
    using fs_inv_parts(4) [OF assms(1)] assms(2,5) by (auto simp: dir_inv_def cong: conj_cong)
  moreover have "handle_inv t"
    using assms(2,6) by (auto simp: handle_inv_def)
  ultimately show ?thesis by (simp add: fs_inv_def)
qed

lemma offsets_inv_cong:
  assumes "fs_inv s" and "offsets_inv s"
    and "\<And>i. live s i \<Longrightarrow> inode_table t i = inode_table s i"
    and "\<And>h. open_handle t h \<Longrightarrow> open_handle s h \<and> open_file_table t h = open_file_table s h"
  shows "offsets_inv t"
  unfolding offsets_inv_def
proof (intro allI impI)
  fix h assume "open_handle t h"
  with assms(4) have h: "open_handle s h" "open_file_table t h = open_file_table s h" by auto
  have "live s (handle_inode s h)" by (rule inv_handle [OF assms(1) h(1)])
  then show "offset_ok t h"
    using assms(2) h assms(3) by (auto simp: offsets_inv_def offset_ok_def handle_inode_def)
qed

section \<open>Initialisation\<close>

lemma create_root:
  fixes s :: fs_state
  defines "r \<equiv> inode_create T_DIRECTORY (state_init s)"
  shows "fst r = 0" and "fs_inv (snd r)" and "\<not> open_handle (snd r) h"
    and "entry (snd r) k = -1 \<or> \<not> k < MAX_DIR_ENTRIES"
proof -
  have i: "first_index (\<lambda>i. freeinode_ts (state_init s) i = FREE) 0 INODE_TABLE_SIZE = Some 0"
    by (simp add: first_index_eq_Some state_init_def)
  have b: "first_index (\<lambda>i. free_blocks (state_init s) i = FREE) 0 DATA_BLOCKS = Some 0"
    by (simp add: first_index_eq_Some state_init_def)
  let ?t = "snd r"
  have r: "fst r = 0" "inode_table ?t = (inode_table s)(0 :=
        \<lparr>i_node_type = T_DIRECTORY, i_size = 1024, i_data_block = 0\<rparr>)"
      "freeinode_ts ?t = (freeinode_ts (state_init s))(0 := TAKEN)"
      "free_blocks ?t = (free_blocks (state_init s))(0 := TAKEN)"
      "free_open_file_entries ?t = free_open_file_entries (state_init s)"
      "fs_data ?t = fold (\<lambda>i. set_d_inumber 0 i (-1)) [0..<MAX_DIR_ENTRIES] (fs_data s)"
    using i b
    by (auto simp: r_def inode_create_def data_block_alloc_def data_block_get_def
        valid_block_number_def state_init_def inode_update_def)
  have live: "live ?t i \<longleftrightarrow> i = 0" for i
    by (auto simp: live_def r state_init_def)
  have data: "has_data ?t i \<longleftrightarrow> i = 0" for i
    by (auto simp: has_data_def live r)
  have block: "block_of ?t 0 = 0" by (simp add: block_of_def r)
  have entry: "entry ?t k = -1" if "k < MAX_DIR_ENTRIES" for k
    using that by (simp add: entry_def block_addr_def block r(6) get_d_inumber_fold_set)
  have handles: "\<not> open_handle ?t h" for h
    by (simp add: open_handle_def r state_init_def)
  have "inode_inv ?t" by (simp add: inode_inv_def live data r valid_block_number_def)
  moreover have "block_inv ?t"
    by (auto simp: block_inv_def data block r state_init_def)
  moreover have "root_inv ?t" by (simp add: root_inv_def data r)
  moreover have "dir_inv ?t" by (simp add: dir_inv_def live entry)
  moreover have "handle_inv ?t" by (simp add: handle_inv_def handles)
  ultimately show "fs_inv (snd r)" by (simp add: fs_inv_def)
  show "fst r = 0" by (rule r)
  show "\<not> open_handle (snd r) h" by (rule handles)
  show "entry (snd r) k = -1 \<or> \<not> k < MAX_DIR_ENTRIES" using entry by blast
qed

section \<open>Opening: the open file table and truncation\<close>

lemma add_handle_cases:
  obtains (full) "add_to_open_file_table i off s = (-1, s)" and "\<forall>h<MAX_OPEN_FILES. open_handle s h"
  | (added) h where "h < MAX_OPEN_FILES" and "\<not> open_handle s h" and "\<forall>j<h. open_handle s j"
    and "add_to_open_file_table i off s = (int h,
      s\<lparr>free_open_file_entries := (free_open_file_entries s)(h := TAKEN),
        open_file_table := (open_file_table s)(h := \<lparr>of_inumber = i, of_offset = off\<rparr>)\<rparr>)"
proof (cases "first_index (\<lambda>i. free_open_file_entries s i = FREE) 0 MAX_OPEN_FILES")
  case None
  show thesis
  proof (rule full)
    show "add_to_open_file_table i off s = (-1, s)"
      using None by (simp add: add_to_open_file_table_def)
    show "\<forall>h<MAX_OPEN_FILES. open_handle s h"
      using None by (simp add: first_index_eq_None open_handle_def)
  qed
next
  case (Some h)
  show thesis
  proof (rule added)
    show "h < MAX_OPEN_FILES" "\<not> open_handle s h" "\<forall>j<h. open_handle s j"
      using Some by (auto simp: first_index_eq_Some open_handle_def)
  qed (simp add: add_to_open_file_table_def Some)
qed

lemma add_handle_inv:
  assumes "fs_inv s" and "live s i" and "i \<noteq> 0"
  shows "fs_inv (snd (add_to_open_file_table (int i) off s))"
proof (cases rule: add_handle_cases [of "int i" off s])
  case full
  with assms(1) show ?thesis by simp
next
  case (added h)
  show ?thesis
  proof (rule fs_inv_cong [OF assms(1)])
    fix h' assume open_h': "open_handle (snd (add_to_open_file_table (int i) off s)) h'"
    show "\<exists>i'. of_inumber (open_file_table (snd (add_to_open_file_table (int i) off s)) h')
        = int i' \<and> i' \<noteq> 0 \<and> live s i'"
    proof (cases "h' = h")
      case True
      with added assms show ?thesis by auto
    next
      case False
      with open_h' added have "open_handle s h'" by (simp add: open_handle_def)
      with False added inv_handle [OF assms(1)] show ?thesis by auto
    qed
  qed (simp_all add: added view_defs)
qed

lemma add_handle_offsets:
  assumes "offsets_inv s" and "off \<le> i_size (inode_table s i)"
  shows "offsets_inv (snd (add_to_open_file_table (int i) off s))"
proof (cases rule: add_handle_cases [of "int i" off s])
  case full
  with assms show ?thesis by simp
next
  case (added h)
  with assms show ?thesis
    by (auto simp: offsets_inv_def view_defs)
qed

lemma truncate_eq:
  assumes "fs_inv s" and "live s i"
  shows "truncate_inode i s = (True,
    if has_data s i then inode_update i (\<lambda>n. n\<lparr>i_size := 0\<rparr>)
        (s\<lparr>free_blocks := (free_blocks s)(block_of s i := FREE)\<rparr>)
    else s)"
proof (cases "has_data s i")
  case True
  from inv_block [OF assms(1) this] have "valid_block_number (i_data_block (inode_table s i))"
    by (simp add: valid_block_number_def)
  then show ?thesis
    using True by (simp add: truncate_inode_def data_block_free_def has_data_def block_of_def
        word_gt_0)
next
  case False
  then show ?thesis using assms(2) by (simp add: truncate_inode_def has_data_def)
qed

lemma truncate_inv:
  assumes inv: "fs_inv s" and i: "live s i" "i \<noteq> 0"
  shows "fs_inv (snd (truncate_inode i s))"
proof (cases "has_data s i")
  case False
  with assms show ?thesis by (simp add: truncate_eq)
next
  case True
  define t where "t = snd (truncate_inode i s)"
  have t: "t = inode_update i (\<lambda>n. n\<lparr>i_size := 0\<rparr>)
        (s\<lparr>free_blocks := (free_blocks s)(block_of s i := FREE)\<rparr>)"
    using True by (simp add: t_def truncate_eq [OF inv i(1)])
  then have t_fields: "inode_table t = (inode_table s)(i := (inode_table s i)\<lparr>i_size := 0\<rparr>)"
      "free_blocks t = (free_blocks s)(block_of s i := FREE)" "freeinode_ts t = freeinode_ts s"
      "fs_data t = fs_data s" "open_file_table t = open_file_table s"
      "free_open_file_entries t = free_open_file_entries s"
    by simp_all
  have live: "live t j \<longleftrightarrow> live s j" for j by (simp add: live_def t_fields)
  have data: "has_data t j \<longleftrightarrow> has_data s j \<and> j \<noteq> i" for j
    by (auto simp: has_data_def live t_fields)
  have block: "block_of t j = block_of s j" for j by (simp add: block_of_def t_fields)
  have entry: "entry t k = entry s k" for k
    by (simp add: entry_def block_addr_def block t_fields)
  have inj: "has_data s j \<Longrightarrow> block_of s j = block_of s i \<Longrightarrow> j = i" for j
    using fs_inv_parts(2) [OF inv] True by (auto simp: block_inv_def)
  have "inode_inv t"
    using fs_inv_parts(1) [OF inv] by (auto simp: inode_inv_def live data t_fields)
  moreover have "block_inv t"
    using fs_inv_parts(2) [OF inv] inj by (auto simp: block_inv_def data block t_fields)
  moreover have "root_inv t"
    using fs_inv_parts(3) [OF inv] i by (auto simp: root_inv_def data t_fields)
  moreover have "dir_inv t"
    using fs_inv_parts(4) [OF inv] by (simp add: dir_inv_def live entry)
  moreover have "handle_inv t"
    using fs_inv_parts(5) [OF inv] by (simp add: handle_inv_def live open_handle_def t_fields)
  ultimately show ?thesis by (simp add: fs_inv_def t_def)
qed

section \<open>Opening: creation of a file\<close>

text \<open>The state \<open>inode_create(T_FILE)\<close> leaves when it takes i-node \<open>i\<close>.\<close>

definition with_file :: "nat \<Rightarrow> fs_state \<Rightarrow> fs_state" where
  "with_file i s = s\<lparr>freeinode_ts := (freeinode_ts s)(i := TAKEN),
     inode_table := (inode_table s)(i := (inode_table s i)
       \<lparr>i_node_type := T_FILE, i_size := 0, i_data_block := -1\<rparr>)\<rparr>"

lemma with_file_simps [simp]:
  "freeinode_ts (with_file i s) = (freeinode_ts s)(i := TAKEN)"
  "inode_table (with_file i s) = (inode_table s)(i := (inode_table s i)
     \<lparr>i_node_type := T_FILE, i_size := 0, i_data_block := -1\<rparr>)"
  "fs_data (with_file i s) = fs_data s"
  "free_blocks (with_file i s) = free_blocks s"
  "open_file_table (with_file i s) = open_file_table s"
  "free_open_file_entries (with_file i s) = free_open_file_entries s"
  by (simp_all add: with_file_def)

lemma inode_create_file:
  assumes "fs_inv s"
  obtains i where "i < INODE_TABLE_SIZE" and "i \<noteq> 0" and "\<not> live s i"
    and "inode_create T_FILE s = (int i, with_file i s)"
proof (cases "first_index (\<lambda>i. freeinode_ts s i = FREE) 0 INODE_TABLE_SIZE")
  case None
  then have "fst (inode_create T_FILE s) = -1" by (simp add: inode_create_def)
  with inode_table_not_full [OF assms] show thesis by simp
next
  case (Some i)
  then have i: "i < INODE_TABLE_SIZE" "\<not> live s i"
    by (auto simp: first_index_eq_Some live_def)
  moreover have "i \<noteq> 0" using i(2) inv_root(2) [OF assms] by metis
  moreover have "inode_create T_FILE s = (int i, with_file i s)"
    by (simp add: inode_create_def Some inode_update_def with_file_def)
  ultimately show thesis using that by blast
qed

lemma add_root_entry:
  assumes inv: "fs_inv s" and i: "i < INODE_TABLE_SIZE" "i \<noteq> 0"
  shows "add_dir_entry ROOT_DIR_INUM (int i) name (with_file i s) =
    (if strlen name = 0 then (-1, with_file i s)
     else case dir_free (fs_data s) (block_addr s 0) of
            Some k \<Rightarrow> (0, (with_file i s)\<lparr>fs_data := set_d_name (block_addr s 0) k (entry_name name)
                             (set_d_inumber (block_addr s 0) k (int i) (fs_data s))\<rparr>)
          | None \<Rightarrow> (-1, with_file i s))"
  using inv_root [OF inv] inv_block(3) [OF inv inv_root(1) [OF inv]] i
  by (subst add_dir_entry_eq) (auto simp: valid_inumber_def cong: option.case_cong)

text \<open>Deleting the new i-node after a failed insertion leaves only a dead i-node changed.\<close>

lemma undo_create_inv:
  assumes inv: "fs_inv s" and i: "i < INODE_TABLE_SIZE" "i \<noteq> 0" "\<not> live s i"
  defines "t \<equiv> snd (inode_delete (int i) (with_file i s))"
  shows "fs_inv t" and "offsets_inv s \<Longrightarrow> offsets_inv t"
    and "freeinode_ts t = freeinode_ts s" and "fs_data t = fs_data s"
    and "\<And>j. live s j \<Longrightarrow> inode_table t j = inode_table s j"
    and "open_file_table t = open_file_table s"
    and "free_open_file_entries t = free_open_file_entries s"
proof -
  have free: "freeinode_ts s i = FREE" using i by (simp add: live_def)
  have t: "freeinode_ts t = freeinode_ts s" "free_blocks t = free_blocks s"
      "fs_data t = fs_data s" "open_file_table t = open_file_table s"
      "free_open_file_entries t = free_open_file_entries s"
      "inode_table t = inode_table (with_file i s)"
    using i free
    by (auto simp: t_def inode_delete_def valid_inumber_def Let_def fun_upd_idem_iff)
  have live: "live t j \<longleftrightarrow> live s j" for j by (simp add: live_def t)
  have same: "live s j \<Longrightarrow> inode_table t j = inode_table s j" for j
    using i by (auto simp: t)
  have handle: "open_handle t h \<longleftrightarrow> open_handle s h" for h by (simp add: open_handle_def t)
  show "fs_inv t"
  proof (rule fs_inv_cong [OF inv])
    show "entry t k = entry s k" for k
      using same [OF inv_root(2) [OF inv]] by (simp add: entry_def block_addr_def block_of_def t)
    show "\<exists>i. of_inumber (open_file_table t h) = int i \<and> i \<noteq> 0 \<and> live s i"
      if "open_handle t h" for h
      using inv_handle [OF inv, of h] that by (auto simp: handle t)
  qed (use live same t in auto)
  show "offsets_inv t" if "offsets_inv s"
    by (rule offsets_inv_cong [OF inv that same]) (simp_all add: handle t(4))
  show "inode_table t j = inode_table s j" if "live s j" for j using that by (rule same)
  show "freeinode_ts t = freeinode_ts s" "fs_data t = fs_data s"
    "open_file_table t = open_file_table s" "free_open_file_entries t = free_open_file_entries s"
    by (rule t)+
qed

lemma create_inv:
  fixes name :: string
  assumes inv: "fs_inv s" and i: "i < INODE_TABLE_SIZE" "i \<noteq> 0" "\<not> live s i"
    and free: "dir_free (fs_data s) (block_addr s 0) = Some k"
  defines "t \<equiv> (with_file i s)\<lparr>fs_data := set_d_name (block_addr s 0) k (entry_name name)
                             (set_d_inumber (block_addr s 0) k (int i) (fs_data s))\<rparr>"
  shows "fs_inv t" and "offsets_inv s \<Longrightarrow> offsets_inv t" and "live t i"
proof -
  have k: "k < MAX_DIR_ENTRIES" "entry s k = -1" "\<forall>j<k. entry s j \<noteq> -1"
    using free by (auto simp: dir_free_def first_index_eq_Some entry_def)
  have live: "live t j \<longleftrightarrow> j = i \<or> live s j" for j
    using i by (auto simp: live_def t_def)
  have data: "has_data t j \<longleftrightarrow> has_data s j" for j
    using i live [of j] by (auto simp: has_data_def) (auto simp: t_def split: if_splits)
  have block: "has_data s j \<Longrightarrow> block_of t j = block_of s j" for j
    using i by (auto simp: block_of_def has_data_def t_def)
  have "block_addr t 0 = block_addr s 0"
    by (simp add: block_addr_def block inv_root(1) [OF inv])
  then have entry: "entry t j = (if j = k then int i else entry s j)" for j
    using i by (simp add: entry_def t_def get_d_inumber_set_d_name get_d_inumber_set_d_inumber)
  have fresh: "entry s j \<noteq> int i" if j: "j < MAX_DIR_ENTRIES" for j
  proof
    assume eq: "entry s j = int i"
    then have "entry s j \<noteq> -1" by simp
    from inv_entry [OF inv j this] obtain i' where "entry s j = int i'" "live s i'" .
    with eq i show False by simp
  qed
  have "inode_inv t"
    using fs_inv_parts(1) [OF inv] i by (auto simp: inode_inv_def live data) (auto simp: t_def has_data_def)
  moreover have "block_inv t"
    by (rule block_inv_cong [OF fs_inv_parts(2) [OF inv] data block]) (simp_all add: t_def)
  moreover have "root_inv t"
    using fs_inv_parts(3) [OF inv] i by (auto simp: root_inv_def data) (auto simp: t_def)
  moreover have "dir_inv t"
    unfolding dir_inv_def
  proof (intro conjI allI impI)
    fix j assume "j < MAX_DIR_ENTRIES" and "entry t j \<noteq> -1"
    then show "\<exists>i. entry t j = int i \<and> i \<noteq> 0 \<and> live t i"
      using inv_entry [OF inv, of j] i by (auto simp: entry live split: if_splits)
  next
    fix j assume j: "live t j" "j \<noteq> 0"
    show "\<exists>!k. k < MAX_DIR_ENTRIES \<and> entry t k = int j"
    proof (cases "j = i")
      case True
      then show ?thesis using k fresh by (intro ex1I [of _ k]) (auto simp: entry split: if_splits)
    next
      case False
      with j have "live s j" by (simp add: live)
      from inv_slot [OF inv this j(2)] obtain l where
        l: "l < MAX_DIR_ENTRIES" "entry s l = int j" "\<And>m. m < MAX_DIR_ENTRIES \<Longrightarrow> entry s m = int j \<Longrightarrow> m = l"
        by auto
      show ?thesis
      proof (rule ex1I [of _ l])
        have "l \<noteq> k" using l(2) k(2) by auto
        then show "l < MAX_DIR_ENTRIES \<and> entry t l = int j" using l(1,2) by (simp add: entry)
      next
        fix m assume "m < MAX_DIR_ENTRIES \<and> entry t m = int j"
        with False show "m = l" by (intro l(3)) (auto simp: entry split: if_splits)
      qed
    qed
  qed
  moreover have "handle_inv t"
    using fs_inv_parts(5) [OF inv] by (auto simp: handle_inv_def live) (auto simp: t_def open_handle_def)
  ultimately show "fs_inv t" by (simp add: fs_inv_def)
  show "offsets_inv t" if "offsets_inv s"
  proof (rule offsets_inv_cong [OF inv that])
    fix j assume "live s j"
    with i have "j \<noteq> i" by metis
    then show "inode_table t j = inode_table s j" by (simp add: t_def)
  qed (simp add: t_def open_handle_def)
  show "live t i" by (simp add: live)
qed

end
