(* ===== verification/FS_ReadWrite.thy ===== *)
theory FS_ReadWrite
  imports FS_Preservation
begin

text \<open>
  Reading and writing through an open handle: how many bytes move, where, and that the
  invariant is kept; then the bodies of open and close.
\<close>

section \<open>The 64-bit arithmetic of the two byte counts\<close>

lemma unat_clip_to_block:
  assumes "unat off \<le> BLOCK_SIZE" and "unat len + unat off < 2 ^ 64"
  shows "unat (clip_to_block len off) = min (unat len) (BLOCK_SIZE - unat off)"
proof -
  have sum: "unat (len + off) = unat len + unat off"
    using assms(2) by (simp add: unat_word_ariths)
  have diff: "unat (1024 - off) = 1024 - unat off"
    using assms(1) by (simp add: unat_sub word_le_nat_alt)
  show ?thesis
    by (auto simp: clip_to_block_def word_less_nat_alt sum diff)
qed

lemma unat_bytes_to_read:
  assumes "off \<le> isize"
  shows "unat (bytes_to_read isize off len) = min (unat len) (unat isize - unat off)"
proof -
  have "unat (isize - off) = unat isize - unat off"
    using assms by (rule unat_sub)
  then show ?thesis by (simp add: bytes_to_read_def word_less_nat_alt min_def)
qed

lemma sint_small: "unat (n :: size_t) \<le> BLOCK_SIZE \<Longrightarrow> sint n = int (unat n)"
proof -
  assume "unat n \<le> BLOCK_SIZE"
  then have "uint n \<le> 1024"
    by (metis of_nat_le_iff of_nat_numeral uint_nat)
  moreover have "- (2 ^ 63) \<le> uint n" by (rule order_trans [of _ 0]) simp_all
  ultimately have "signed_take_bit 63 (uint n) = uint n"
    by (intro signed_take_bit_int_eq_self) auto
  then have "sint n = uint n" by (simp add: sint_uint)
  then show ?thesis by simp
qed

lemma unat_max: "unat (max (a :: size_t) b) = max (unat a) (unat b)"
  by (simp add: max_def word_le_nat_alt)

lemma word_positive_iff: "(n :: size_t) > 0 \<longleftrightarrow> unat n \<noteq> 0"
  by (simp add: word_gt_0 unat_eq_0)

section \<open>Writing\<close>

text \<open>
  The state after \<open>n > 0\<close> bytes of \<open>buffer\<close> went through handle \<open>h\<close> into block \<open>b\<close>, where
  the handle's offset is \<open>off\<close>.
\<close>

definition written :: "nat \<Rightarrow> nat \<Rightarrow> nat \<Rightarrow> string \<Rightarrow> fs_state \<Rightarrow> fs_state" where
  "written h b n buffer s =
     (let i = handle_inode s h; off = of_offset (open_file_table s h);
          upto = off + of_nat n
      in s\<lparr>free_blocks := (free_blocks s)(b := TAKEN),
           inode_table := (inode_table s)(i := (inode_table s i)
             \<lparr>i_data_block := int b, i_size := max (i_size (inode_table s i)) upto\<rparr>),
           fs_data := mem_write (fs_data s) (b * BLOCK_SIZE + unat off) (take n buffer),
           open_file_table :=
             (open_file_table s)(h := (open_file_table s h)\<lparr>of_offset := upto\<rparr>)\<rparr>)"

text \<open>The block a write to i-node \<open>i\<close> goes to: the file's, or a free one for an empty file.\<close>

definition write_block :: "fs_state \<Rightarrow> nat \<Rightarrow> nat \<Rightarrow> bool" where
  "write_block s i b \<longleftrightarrow> b < DATA_BLOCKS \<and>
     (if has_data s i then b = block_of s i else free_blocks s b = FREE)"

lemma alloc_if_empty_eq:
  assumes inv: "fs_inv s" and "live s i"
  obtains b where "write_block s i b"
    and "alloc_if_empty i s = s\<lparr>free_blocks := (free_blocks s)(b := TAKEN),
           inode_table := (inode_table s)(i := (inode_table s i)\<lparr>i_data_block := int b\<rparr>)\<rparr>"
proof (cases "has_data s i")
  case True
  have taken: "free_blocks s (block_of s i) = TAKEN"
    using True inv_block(2) [OF inv True] fs_inv_parts(2) [OF inv] by (auto simp: block_inv_def)
  show thesis
  proof (rule that)
    show "write_block s i (block_of s i)"
      using True inv_block(2) [OF inv True] by (simp add: write_block_def)
    show "alloc_if_empty i s = s\<lparr>free_blocks := (free_blocks s)(block_of s i := TAKEN),
           inode_table := (inode_table s)(i := (inode_table s i)\<lparr>i_data_block := int (block_of s i)\<rparr>)\<rparr>"
      using True taken inv_block(1) [OF inv True, symmetric]
      by (simp add: alloc_if_empty_def has_data_def fun_upd_idem)
  qed
next
  case False
  obtain b where b: "first_index (\<lambda>i. free_blocks s i = FREE) 0 DATA_BLOCKS = Some b"
    using blocks_not_full [OF inv]
    by (auto simp: data_block_alloc_def split: option.splits)
  show thesis
  proof (rule that)
    show "write_block s i b" using b False by (auto simp: write_block_def first_index_eq_Some)
    show "alloc_if_empty i s = s\<lparr>free_blocks := (free_blocks s)(b := TAKEN),
           inode_table := (inode_table s)(i := (inode_table s i)\<lparr>i_data_block := int b\<rparr>)\<rparr>"
      using False assms(2) b
      by (simp add: alloc_if_empty_def has_data_def data_block_alloc_def inode_update_def)
  qed
qed

text \<open>
  A write through an open handle within its file: \<open>min len (BLOCK_SIZE - off)\<close> bytes go to
  the file's block at the offset. It cannot fail for lack of blocks.
\<close>

lemma write_eq:
  assumes inv: "fs_inv s" and h: "open_handle s h" "offset_ok s h"
    and len: "unat len \<le> length buffer" "unat len + BLOCK_SIZE < 2 ^ 64"
  defines "n \<equiv> min (unat len) (BLOCK_SIZE - unat (of_offset (open_file_table s h)))"
  obtains "n = 0" and "tfs_write_unsynchronized (int h) buffer len s = Inr (0, s)"
  | b where "n > 0" and "write_block s (handle_inode s h) b"
    and "tfs_write_unsynchronized (int h) buffer len s = Inr (int n, written h b n buffer s)"
proof -
  let ?i = "handle_inode s h" and ?off = "of_offset (open_file_table s h)"
  note i = inv_handle [OF inv h(1)]
  have off: "unat ?off \<le> unat (i_size (inode_table s ?i))"
    using h(2) by (simp add: offset_ok_def word_le_nat_alt)
  also have "\<dots> \<le> BLOCK_SIZE" using inv_size_le [OF inv i(2)] .
  finally have off1024: "unat ?off \<le> BLOCK_SIZE" .
  then have n: "unat (clip_to_block len ?off) = n"
    using len by (simp add: n_def unat_clip_to_block)
  have n1024: "unat ?off + n \<le> BLOCK_SIZE" "n \<le> length buffer"
    using off1024 len by (auto simp: n_def)
  have clip: "clip_to_block len ?off = of_nat n" by (simp flip: n)
  have sint: "sint (clip_to_block len ?off) = int n"
    using n n1024 by (simp add: sint_small)
  note enter = get_open_file_entry_open [OF h(1)] i(1) inode_get_live [OF i(2)]
  show thesis
  proof (cases "n = 0")
    case True
    with n have "clip_to_block len ?off = 0" by (simp add: unat_eq_0)
    then have "tfs_write_unsynchronized (int h) buffer len s = Inr (0, s)"
      by (simp add: tfs_write_unsynchronized_def enter)
    with True show thesis by (rule that(1))
  next
    case False
    obtain b where b: "write_block s ?i b"
      and alloc: "alloc_if_empty ?i s = s\<lparr>free_blocks := (free_blocks s)(b := TAKEN),
           inode_table := (inode_table s)(?i := (inode_table s ?i)\<lparr>i_data_block := int b\<rparr>)\<rparr>"
      using alloc_if_empty_eq [OF inv i(2)] .
    have b1024: "b < DATA_BLOCKS" using b by (simp add: write_block_def)
    then have get: "data_block_get (int b) = Some (b * BLOCK_SIZE)"
      by (simp add: data_block_get_def valid_block_number_def)
    have bounds: "copy_in_bounds (b * BLOCK_SIZE + unat ?off) n buffer"
      using b1024 n1024 by (simp add: copy_in_bounds_def)
    have "tfs_write_unsynchronized (int h) buffer len s = Inr (int n, written h b n buffer s)"
      using False
      by (simp add: tfs_write_unsynchronized_def enter word_positive_iff n alloc get bounds sint
          Let_def) (simp add: written_def clip set_offset_def inode_update_def Let_def max_def)
    with False b show thesis by (intro that(2)) auto
  qed
qed

lemma write_block_other:
  assumes "fs_inv s" and "write_block s i b" and "has_data s j" and "j \<noteq> i"
  shows "block_of s j \<noteq> b"
proof (cases "has_data s i")
  case True
  with assms show ?thesis by (auto simp: write_block_def fs_inv_def block_inv_def)
next
  case False
  have "free_blocks s (block_of s j) = TAKEN"
    using inv_block(2) [OF assms(1,3)] fs_inv_parts(2) [OF assms(1)] assms(3)
    by (auto simp: block_inv_def)
  with False assms(2) show ?thesis by (auto simp: write_block_def)
qed

text \<open>The bytes of the blocks of other i-nodes are untouched.\<close>

lemma written_frame:
  assumes inv: "fs_inv s" and b: "write_block s (handle_inode s h) b"
    and off: "unat (of_offset (open_file_table s h)) + n \<le> BLOCK_SIZE"
    and j: "has_data s j" "j \<noteq> handle_inode s h"
  shows "\<forall>i<BLOCK_SIZE. fs_data (written h b n buffer s) (block_addr s j + i)
    = fs_data s (block_addr s j + i)"
proof (intro allI impI)
  fix i :: nat assume i: "i < BLOCK_SIZE"
  have "block_of s j \<noteq> b" by (rule write_block_other [OF inv b j])
  then have "block_of s j * BLOCK_SIZE + BLOCK_SIZE \<le> b * BLOCK_SIZE
      \<or> b * BLOCK_SIZE + BLOCK_SIZE \<le> block_of s j * BLOCK_SIZE"
    by linarith
  then show "fs_data (written h b n buffer s) (block_addr s j + i) = fs_data s (block_addr s j + i)"
    using i off by (auto simp: written_def Let_def block_addr_def intro!: mem_write_other)
qed

lemma written_inv:
  fixes buffer :: string
  assumes inv: "fs_inv s" and h: "open_handle s h" and n: "n > 0"
    and off: "unat (of_offset (open_file_table s h)) + n \<le> BLOCK_SIZE"
    and b: "write_block s (handle_inode s h) b"
  defines "t \<equiv> written h b n buffer s"
  shows "fs_inv t"
proof -
  let ?i = "handle_inode s h" and ?off = "of_offset (open_file_table s h)"
  note i = inv_handle [OF inv h]
  have upto: "unat (?off + of_nat n) = unat ?off + n"
    using off by (simp add: unat_word_ariths unat_of_nat)
  have t: "inode_table t = (inode_table s)(?i := (inode_table s ?i)
             \<lparr>i_data_block := int b, i_size := max (i_size (inode_table s ?i)) (?off + of_nat n)\<rparr>)"
      "free_blocks t = (free_blocks s)(b := TAKEN)" "freeinode_ts t = freeinode_ts s"
      "free_open_file_entries t = free_open_file_entries s"
      "of_inumber (open_file_table t h') = of_inumber (open_file_table s h')" for h'
    by (simp_all add: t_def written_def Let_def)
  have b1024: "b < DATA_BLOCKS" using b by (simp add: write_block_def)
  have size_t: "unat (max (i_size (inode_table s ?i)) (?off + of_nat n)) \<le> BLOCK_SIZE"
    using inv_size_le [OF inv i(2)] off upto by (simp add: max_def)
  have nonzero: "max (i_size (inode_table s ?i)) (?off + of_nat n) \<noteq> 0"
  proof -
    have "unat (max (i_size (inode_table s ?i)) (?off + of_nat n)) \<ge> unat ?off + n"
      by (simp add: unat_max upto)
    with n have "unat (max (i_size (inode_table s ?i)) (?off + of_nat n)) \<noteq> 0" by simp
    then show ?thesis by (metis unat_0)
  qed
  have live: "live t j \<longleftrightarrow> live s j" for j by (simp add: live_def t)
  have data: "has_data t j \<longleftrightarrow> has_data s j \<or> j = ?i" for j
    using i(2) nonzero by (auto simp: has_data_def live) (auto simp: t split: if_splits)
  have block: "block_of t j = (if j = ?i then b else block_of s j)" for j
    by (simp add: block_of_def t)
  have root: "0 \<noteq> ?i" using i(3) by simp
  have addr: "block_addr t 0 = block_addr s 0" using root by (simp add: block_addr_def block)
  have entry: "entry t k = entry s k" if "k < MAX_DIR_ENTRIES" for k
    using get_d_inumber_cong [OF written_frame [OF inv b off inv_root(1) [OF inv] root] that]
    by (simp add: entry_def addr) (simp add: t_def)
  have "inode_inv t"
    using fs_inv_parts(1) [OF inv] size_t i b1024
    by (auto simp: inode_inv_def live data t valid_block_number_def)
  moreover have "block_inv t"
    unfolding block_inv_def
  proof (intro conjI allI impI)
    fix j k assume "has_data t j" "has_data t k" "block_of t j = block_of t k"
    then show "j = k"
      using write_block_other [OF inv b] fs_inv_parts(2) [OF inv]
      by (auto simp: data block block_inv_def split: if_splits)
  next
    fix c :: nat assume c: "c < DATA_BLOCKS"
    have "(\<exists>j. has_data t j \<and> block_of t j = c) \<longleftrightarrow> c = b \<or> (\<exists>j. has_data s j \<and> j \<noteq> ?i \<and> block_of s j = c)"
      by (auto simp: data block)
    also have "\<dots> \<longleftrightarrow> c = b \<or> (\<exists>j. has_data s j \<and> block_of s j = c)"
      using b by (auto simp: write_block_def)
    also have "\<dots> \<longleftrightarrow> c = b \<or> free_blocks s c = TAKEN"
      using fs_inv_parts(2) [OF inv] c by (simp add: block_inv_def)
    finally show "free_blocks t c = TAKEN \<longleftrightarrow> (\<exists>j. has_data t j \<and> block_of t j = c)"
      by (simp add: t)
  qed
  moreover have "root_inv t"
    using fs_inv_parts(3) [OF inv] root by (simp add: root_inv_def data t)
  moreover have "dir_inv t"
    using fs_inv_parts(4) [OF inv] by (auto simp: dir_inv_def live entry cong: conj_cong)
  moreover have "handle_inv t"
    using fs_inv_parts(5) [OF inv] by (simp add: handle_inv_def live open_handle_def t)
  ultimately show "fs_inv t" by (simp add: fs_inv_def)
qed

lemma written_offsets:
  fixes buffer :: string
  assumes inv: "fs_inv s" "offsets_inv s" and h: "open_handle s h"
    and off: "unat (of_offset (open_file_table s h)) + n \<le> BLOCK_SIZE"
  shows "offsets_inv (written h b n buffer s)"
proof -
  let ?i = "handle_inode s h" and ?t = "written h b n buffer s"
  have handles: "open_handle ?t h' \<longleftrightarrow> open_handle s h'" "handle_inode ?t h' = handle_inode s h'" for h'
    by (simp_all add: open_handle_def handle_inode_def written_def Let_def)
  have grows: "i_size (inode_table s j) \<le> i_size (inode_table ?t j)" for j
    by (simp add: written_def Let_def)
  show ?thesis
    unfolding offsets_inv_def
  proof (intro allI impI)
    fix h' assume "open_handle ?t h'"
    then have "offset_ok s h'" using inv(2) by (simp add: offsets_inv_def handles)
    then show "offset_ok ?t h'"
      using order_trans [OF _ grows]
      by (cases "h' = h") (auto simp: offset_ok_def handles, auto simp: written_def Let_def handle_inode_def)
  qed
qed

section \<open>Reading\<close>

text \<open>The contents of a file: the first \<open>i_size\<close> bytes of its block.\<close>

definition content :: "fs_state \<Rightarrow> nat \<Rightarrow> string" where
  "content s i = mem_read (fs_data s) (block_addr s i) (unat (i_size (inode_table s i)))"

lemma content_empty: "live s i \<Longrightarrow> \<not> has_data s i \<Longrightarrow> content s i = []"
  by (simp add: content_def has_data_def)

lemma length_content [simp]: "length (content s i) = unat (i_size (inode_table s i))"
  by (simp add: content_def)

text \<open>
  A read through an open handle within its file copies the bytes of the contents from the
  offset on, at most \<open>len\<close> of them, and moves the offset past them.
\<close>

lemma read_eq:
  assumes inv: "fs_inv s" and h: "open_handle s h" "offset_ok s h"
    and len: "unat len \<le> length buffer"
  defines "off \<equiv> of_offset (open_file_table s h)"
  defines "bytes \<equiv> take (unat len) (drop (unat off) (content s (handle_inode s h)))"
  shows "tfs_read_unsynchronized (int h) buffer len s =
    Inr (int (length bytes), bytes @ drop (length bytes) buffer,
         set_offset h (off + of_nat (length bytes)) s)"
proof -
  let ?i = "handle_inode s h"
  let ?n = "bytes_to_read (i_size (inode_table s ?i)) off len"
  note i = inv_handle [OF inv h(1)]
  note enter = get_open_file_entry_open [OF h(1)] i(1) inode_get_live [OF i(2)]
  have off: "off \<le> i_size (inode_table s ?i)"
    using h(2) by (simp add: offset_ok_def off_def)
  have n: "unat ?n = length bytes"
    by (simp add: unat_bytes_to_read [OF off] bytes_def)
  have size: "unat (i_size (inode_table s ?i)) \<le> BLOCK_SIZE" by (rule inv_size_le [OF inv i(2)])
  have n1024: "unat off + length bytes \<le> BLOCK_SIZE \<or> length bytes = 0" "length bytes \<le> length buffer"
    using size len by (auto simp: bytes_def)
  have sint: "sint ?n = int (length bytes)"
    using n size by (simp add: sint_small bytes_def)
  have bytes: "bytes = mem_read (fs_data s) (block_addr s ?i + unat off) (length bytes)"
    by (simp add: bytes_def content_def drop_mem_read take_mem_read)
  have n_word: "?n = of_nat (length bytes)" by (simp flip: n)
  show ?thesis
  proof (cases "length bytes = 0")
    case True
    with n have "?n = 0" by (simp add: unat_eq_0)
    with True show ?thesis
      by (simp add: tfs_read_unsynchronized_def enter flip: off_def)
        (simp add: set_offset_def off_def fun_upd_idem)
  next
    case False
    then have "has_data s ?i" using i(2) by (auto simp: bytes_def has_data_def)
    note block = inv_block [OF inv this]
    have bounds: "copy_in_bounds (block_addr s ?i + unat off) (length bytes) buffer"
      using n1024 False block(2) by (simp add: copy_in_bounds_def block_addr_def)
    from False show ?thesis
      by (simp add: tfs_read_unsynchronized_def enter word_positive_iff n block(3) bounds sint
          flip: off_def bytes) (simp add: n_word)
  qed
qed

lemma set_offset_inv:
  assumes "fs_inv s"
  shows "fs_inv (set_offset h off s)"
proof (rule fs_inv_cong [OF assms])
  show "\<exists>i. of_inumber (open_file_table (set_offset h off s) h') = int i \<and> i \<noteq> 0 \<and> live s i"
    if "open_handle (set_offset h off s) h'" for h'
    using that inv_handle [OF assms, of h'] by (auto simp: open_handle_def)
qed (simp_all add: view_defs)

lemma set_offset_offsets:
  "offsets_inv s \<Longrightarrow> off \<le> i_size (inode_table s (handle_inode s h)) \<Longrightarrow> offsets_inv (set_offset h off s)"
  by (auto simp: offsets_inv_def offset_ok_def open_handle_def handle_inode_def)

end
