(* ===== verification/FS_Spec.thy ===== *)
theory FS_Spec
  imports FS_ReadWrite
begin

text \<open>
  What the file system promises, without tables, blocks and bytes of directory entries: a
  map from names to files, a map from files to contents, and a map from handles to a file
  and an offset. The operations of \<open>fs/operations.c\<close> refine it, as single operations and
  as histories.
\<close>

section \<open>The specification\<close>

record spec_fs =
  names :: "string \<rightharpoonup> nat"
  files :: "nat \<rightharpoonup> string"
  fds :: "nat \<rightharpoonup> nat \<times> nat"
  closing :: bool

definition overwrite :: "string \<Rightarrow> nat \<Rightarrow> string \<Rightarrow> string" where
  "overwrite c k d = take k c @ d @ drop (k + length d) c"

definition spec_attach :: "nat \<Rightarrow> nat \<Rightarrow> spec_fs \<Rightarrow> int \<times> spec_fs" where
  "spec_attach i off a =
     (case first_index (\<lambda>h. fds a h = None) 0 MAX_OPEN_FILES of
        Some h \<Rightarrow> (int h, a\<lparr>fds := (fds a)(h \<mapsto> (i, off))\<rparr>)
      | None \<Rightarrow> (-1, a))"

definition spec_open :: "string \<Rightarrow> int \<Rightarrow> spec_fs \<Rightarrow> int \<Rightarrow> spec_fs \<Rightarrow> bool" where
  "spec_open name flags a r b \<longleftrightarrow>
     (if closing a then r = -1 \<and> b = a
      else case names a name of
        Some i \<Rightarrow>
          (let a1 = (if flags AND TFS_O_TRUNC \<noteq> 0 then a\<lparr>files := (files a)(i \<mapsto> [])\<rparr> else a)
           in (r, b) = spec_attach i
                (if flags AND TFS_O_APPEND \<noteq> 0 then length (the (files a1 i)) else 0) a1)
      | None \<Rightarrow>
          if flags AND TFS_O_CREAT = 0 \<or> card (dom (files a)) = MAX_DIR_ENTRIES
          then r = -1 \<and> b = a
          else \<exists>i. files a i = None \<and> (r, b) = spec_attach i 0
                 (a\<lparr>names := (names a)(name \<mapsto> i), files := (files a)(i \<mapsto> [])\<rparr>))"

definition spec_write :: "nat \<Rightarrow> string \<Rightarrow> spec_fs \<Rightarrow> int \<times> spec_fs" where
  "spec_write h d a =
     (case fds a h of
        None \<Rightarrow> (-1, a)
      | Some (i, off) \<Rightarrow>
          (let n = min (length d) (BLOCK_SIZE - off)
           in (int n, a\<lparr>files := (files a)(i \<mapsto> overwrite (the (files a i)) off (take n d)),
                        fds := (fds a)(h \<mapsto> (i, off + n))\<rparr>)))"

definition spec_read :: "nat \<Rightarrow> nat \<Rightarrow> spec_fs \<Rightarrow> (int \<times> string) \<times> spec_fs" where
  "spec_read h len a =
     (case fds a h of
        None \<Rightarrow> ((-1, []), a)
      | Some (i, off) \<Rightarrow>
          (let bytes = take len (drop off (the (files a i)))
           in ((int (length bytes), bytes),
               a\<lparr>fds := (fds a)(h \<mapsto> (i, off + length bytes))\<rparr>)))"

definition spec_close :: "nat \<Rightarrow> spec_fs \<Rightarrow> int \<times> spec_fs" where
  "spec_close h a = (if fds a h = None then -1 else 0, a\<lparr>fds := (fds a)(h := None)\<rparr>)"

lemma spec_write_eq:
  assumes "fds a h = Some (i, off)" and "files a i = Some c"
    and "min (length d) (BLOCK_SIZE - off) = n"
  shows "spec_write h d a = (int n, a\<lparr>files := (files a)(i \<mapsto> overwrite c off (take n d)),
     fds := (fds a)(h \<mapsto> (i, off + n))\<rparr>)"
  using assms by (simp add: spec_write_def Let_def)

lemma spec_write_0:
  assumes "fds a h = Some (i, off)" and "files a i = Some c"
    and "min (length d) (BLOCK_SIZE - off) = 0"
  shows "spec_write h d a = (0, a)"
proof -
  have "overwrite c off (take 0 d) = c" by (simp add: overwrite_def)
  with assms(1,2) show ?thesis
    by (simp add: spec_write_eq [OF assms] fun_upd_idem)
qed

lemma spec_read_eq:
  assumes "fds a h = Some (i, off)" and "files a i = Some c" and "bytes = take len (drop off c)"
  shows "spec_read h len a
    = ((int (length bytes), bytes), a\<lparr>fds := (fds a)(h \<mapsto> (i, off + length bytes))\<rparr>)"
  using assms by (simp add: spec_read_def Let_def)

section \<open>Abstraction\<close>

definition proper_name :: "string \<Rightarrow> bool" where
  "proper_name n \<longleftrightarrow> NUL \<notin> set n \<and> length n < MAX_FILE_NAME"

definition abs_names :: "fs_state \<Rightarrow> string \<rightharpoonup> nat" where
  "abs_names s n = (if proper_name n \<and> find_in_dir ROOT_DIR_INUM n s \<noteq> -1
     then Some (nat (find_in_dir ROOT_DIR_INUM n s)) else None)"

definition abs_files :: "fs_state \<Rightarrow> nat \<rightharpoonup> string" where
  "abs_files s i = (if live s i \<and> i \<noteq> 0 then Some (content s i) else None)"

definition abs_fds :: "fs_state \<Rightarrow> nat \<rightharpoonup> nat \<times> nat" where
  "abs_fds s h = (if open_handle s h
     then Some (handle_inode s h, unat (of_offset (open_file_table s h))) else None)"

definition abs_fs :: "bool \<Rightarrow> fs_state \<Rightarrow> spec_fs" where
  "abs_fs c s = \<lparr>names = abs_names s, files = abs_files s, fds = abs_fds s, closing = c\<rparr>"

lemma abs_fs_simps [simp]:
  "names (abs_fs c s) = abs_names s" "files (abs_fs c s) = abs_files s"
  "fds (abs_fs c s) = abs_fds s" "closing (abs_fs c s) = c"
  by (simp_all add: abs_fs_def)

lemma spec_fs_eqI:
  "names a = names b \<Longrightarrow> files a = files (b :: spec_fs) \<Longrightarrow> fds a = fds b \<Longrightarrow> closing a = closing b \<Longrightarrow> a = b"
  by simp

lemma abs_names_cong:
  assumes "fs_inv s" and "fs_inv t" and "block_addr t 0 = block_addr s 0"
    and "\<forall>i<BLOCK_SIZE. fs_data t (block_addr s 0 + i) = fs_data s (block_addr s 0 + i)"
  shows "abs_names t = abs_names s"
  using dir_find_cong [OF assms(4)]
  by (simp add: fun_eq_iff abs_names_def find_in_root assms)

lemma find_in_root_cong:
  "inode_table t 0 = inode_table s 0 \<Longrightarrow> fs_data t = fs_data s
     \<Longrightarrow> find_in_dir ROOT_DIR_INUM n t = find_in_dir ROOT_DIR_INUM n s"
  by (simp add: find_in_dir_def cong: option.case_cong)

lemma abs_same_live:
  assumes "freeinode_ts t = freeinode_ts s" and "fs_data t = fs_data s" and "live s 0"
    and "\<And>i. live s i \<Longrightarrow> inode_table t i = inode_table s i"
  shows "abs_names t = abs_names s" and "abs_files t = abs_files s"
proof -
  show "abs_names t = abs_names s"
    using assms(2) assms(4) [OF assms(3)]
    by (intro ext) (simp add: abs_names_def find_in_root_cong [of t s])
  have "live t i = live s i" for i by (simp add: live_def assms(1))
  then show "abs_files t = abs_files s"
    using assms(2,4)
    by (intro ext) (simp add: abs_files_def content_def block_addr_def block_of_def)
qed

lemma abs_same:
  assumes "inode_table t = inode_table s" and "freeinode_ts t = freeinode_ts s"
    and "fs_data t = fs_data s"
  shows "abs_names t = abs_names s" and "abs_files t = abs_files s"
  by (rule ext, simp add: assms abs_names_def find_in_root_cong [of t s] abs_files_def live_def
      content_def block_addr_def block_of_def)+

section \<open>Read, write and close refine the specification\<close>

lemma content_written:
  fixes buffer :: string
  assumes inv: "fs_inv s" and h: "open_handle s h" "offset_ok s h"
    and n: "unat (of_offset (open_file_table s h)) + n \<le> BLOCK_SIZE" "n \<le> length buffer"
    and b: "write_block s (handle_inode s h) b"
  shows "content (written h b n buffer s) (handle_inode s h)
    = overwrite (content s (handle_inode s h)) (unat (of_offset (open_file_table s h))) (take n buffer)"
proof -
  let ?i = "handle_inode s h" and ?off = "of_offset (open_file_table s h)"
    and ?t = "written h b n buffer s"
  have upto: "unat (?off + of_nat n) = unat ?off + n"
    using n by (simp add: unat_word_ariths unat_of_nat)
  have off: "unat ?off \<le> unat (i_size (inode_table s ?i))"
    using h(2) by (simp add: offset_ok_def word_le_nat_alt)
  have t: "content ?t ?i = mem_read (mem_write (fs_data s) (b * BLOCK_SIZE + unat ?off) (take n buffer))
      (b * BLOCK_SIZE) (max (unat (i_size (inode_table s ?i))) (unat ?off + length (take n buffer)))"
    using n(2) by (simp add: content_def block_addr_def block_of_def written_def Let_def unat_max upto min_absorb2)
  show ?thesis
  proof (cases "has_data s ?i")
    case True
    then have "block_addr s ?i = b * BLOCK_SIZE"
      using b by (simp add: write_block_def block_addr_def)
    then show ?thesis
      by (simp only: t mem_read_write_within [OF off] overwrite_def content_def [of s])
  next
    case False
    then have "i_size (inode_table s ?i) = 0"
      using inv_handle(2) [OF inv h(1)] by (simp add: has_data_def)
    moreover from this off have "unat ?off = 0" by simp
    ultimately show ?thesis
      by (simp only: t) (simp add: overwrite_def content_def mem_read_write_same)
  qed
qed

lemma content_written_other:
  fixes buffer :: string
  assumes inv: "fs_inv s" and b: "write_block s (handle_inode s h) b"
    and off: "unat (of_offset (open_file_table s h)) + n \<le> BLOCK_SIZE"
    and j: "live s j" "j \<noteq> handle_inode s h"
  shows "content (written h b n buffer s) j = content s j"
proof (cases "has_data s j")
  case True
  have same: "block_addr (written h b n buffer s) j = block_addr s j"
    "inode_table (written h b n buffer s) j = inode_table s j"
    using j(2) by (simp_all add: block_addr_def block_of_def written_def Let_def)
  have size: "unat (i_size (inode_table s j)) \<le> BLOCK_SIZE" by (rule inv_size_le [OF inv j(1)])
  show ?thesis
    unfolding content_def same
  proof (rule mem_read_cong)
    fix i assume "i < unat (i_size (inode_table s j))"
    with size have "i < BLOCK_SIZE" by simp
    with written_frame [OF inv b off True j(2)]
    show "fs_data (written h b n buffer s) (block_addr s j + i) = fs_data s (block_addr s j + i)"
      by blast
  qed
next
  case False
  with j show ?thesis
    by (simp add: content_def has_data_def) (simp add: written_def Let_def)
qed

theorem write_refines:
  assumes inv: "fs_inv s" and h: "open_handle s h" "offset_ok s h"
    and len: "unat len \<le> length buffer" "unat len + BLOCK_SIZE < 2 ^ 64"
  shows "\<exists>r t. tfs_write_unsynchronized (int h) buffer len s = Inr (r, t) \<and> fs_inv t
    \<and> (offsets_inv s \<longrightarrow> offsets_inv t)
    \<and> spec_write h (take (unat len) buffer) (abs_fs c s) = (r, abs_fs c t)"
proof -
  let ?i = "handle_inode s h" and ?off = "of_offset (open_file_table s h)"
  let ?n = "min (unat len) (BLOCK_SIZE - unat ?off)"
  note i = inv_handle [OF inv h(1)]
  have fd: "abs_fds s h = Some (?i, unat ?off)" by (simp add: abs_fds_def h)
  have contents: "abs_files s ?i = Some (content s ?i)" by (simp add: abs_files_def i)
  have off1024: "unat ?off \<le> BLOCK_SIZE"
    using h(2) inv_size_le [OF inv i(2)] by (simp add: offset_ok_def word_le_nat_alt)
  have len_n: "min (length (take (unat len) buffer)) (BLOCK_SIZE - unat ?off) = ?n"
    using len(1) by simp
  show ?thesis
  proof (cases rule: write_eq [OF inv h len])
    case 1
    with fd contents len_n
    have "spec_write h (take (unat len) buffer) (abs_fs c s) = (0, abs_fs c s)"
      by (intro spec_write_0) auto
    with 1 inv show ?thesis by simp
  next
    case (2 b)
    let ?t = "written h b ?n buffer s"
    have n: "unat ?off + ?n \<le> BLOCK_SIZE" "?n \<le> length buffer" using off1024 len by auto
    have inv_t: "fs_inv ?t" by (rule written_inv [OF inv h(1) 2(1) n(1) 2(2)])
    have live: "live ?t j = live s j" for j by (simp add: live_def written_def Let_def)
    have root: "0 \<noteq> ?i" using i(3) by simp
    have root_addr: "block_addr ?t 0 = block_addr s 0"
      using root by (simp add: block_addr_def block_of_def written_def Let_def)
    have names: "abs_names ?t = abs_names s"
      using written_frame [OF inv 2(2) n(1) inv_root(1) [OF inv] root]
      by (intro abs_names_cong [OF inv inv_t root_addr]) simp
    have take_n: "take ?n (take (unat len) buffer) = take ?n buffer" by (simp add: min_def)
    have files: "abs_files ?t
        = (abs_files s)(?i \<mapsto> overwrite (content s ?i) (unat ?off) (take ?n buffer))"
      using content_written [OF inv h n 2(2)] content_written_other [OF inv 2(2) n(1)] i
      by (auto simp: fun_eq_iff abs_files_def live)
    have upto: "unat (?off + of_nat ?n) = unat ?off + ?n"
      using n by (simp add: unat_word_ariths unat_of_nat)
    have fds: "abs_fds ?t = (abs_fds s)(h \<mapsto> (?i, unat ?off + ?n))"
      using h(1) upto
      by (auto simp: fun_eq_iff abs_fds_def open_handle_def handle_inode_def written_def Let_def)
    have "spec_write h (take (unat len) buffer) (abs_fs c s) = (int ?n, abs_fs c ?t)"
      using spec_write_eq [of "abs_fs c s" h, OF _ _ len_n] fd contents
      by (simp add: take_n names files fds abs_fs_def del: take_take length_take)
    with 2(3) inv_t written_offsets [OF inv _ h(1) n(1)] show ?thesis by blast
  qed
qed

theorem read_refines:
  assumes inv: "fs_inv s" and h: "open_handle s h" "offset_ok s h"
    and len: "unat len \<le> length buffer"
  shows "\<exists>r bytes t. tfs_read_unsynchronized (int h) buffer len s
      = Inr (r, bytes @ drop (length bytes) buffer, t) \<and> fs_inv t
    \<and> (offsets_inv s \<longrightarrow> offsets_inv t)
    \<and> spec_read h (unat len) (abs_fs c s) = ((r, bytes), abs_fs c t)"
proof -
  let ?i = "handle_inode s h" and ?off = "of_offset (open_file_table s h)"
  define bytes where "bytes = take (unat len) (drop (unat ?off) (content s ?i))"
  define t where "t = set_offset h (?off + of_nat (length bytes)) s"
  note i = inv_handle [OF inv h(1)]
  have off: "unat ?off \<le> unat (i_size (inode_table s ?i))"
    using h(2) by (simp add: offset_ok_def word_le_nat_alt)
  have size: "unat (i_size (inode_table s ?i)) \<le> BLOCK_SIZE" by (rule inv_size_le [OF inv i(2)])
  have upto: "unat (?off + of_nat (length bytes)) = unat ?off + length bytes"
    using off size by (simp add: bytes_def unat_word_ariths unat_of_nat)
  have le: "?off + of_nat (length bytes) \<le> i_size (inode_table s ?i)"
    unfolding word_le_nat_alt upto using off by (simp add: bytes_def)
  have same: "abs_names t = abs_names s" "abs_files t = abs_files s"
    by (rule abs_same; simp add: t_def)+
  have fds: "abs_fds t = (abs_fds s)(h \<mapsto> (?i, unat ?off + length bytes))"
    using h(1) upto by (auto simp: fun_eq_iff abs_fds_def open_handle_def handle_inode_def t_def)
  have "spec_read h (unat len) (abs_fs c s) = ((int (length bytes), bytes), abs_fs c t)"
  proof (subst spec_read_eq [OF _ _ bytes_def])
    show "fds (abs_fs c s) h = Some (?i, unat ?off)" by (simp add: abs_fds_def h)
    show "files (abs_fs c s) ?i = Some (content s ?i)" by (simp add: abs_files_def i)
  qed (simp add: same fds abs_fs_def)
  moreover have "offsets_inv s \<longrightarrow> offsets_inv t"
    using set_offset_offsets [OF _ le] by (simp add: t_def)
  moreover have "fs_inv t" by (simp add: t_def set_offset_inv [OF inv])
  moreover have "tfs_read_unsynchronized (int h) buffer len s
      = Inr (int (length bytes), bytes @ drop (length bytes) buffer, t)"
    unfolding bytes_def t_def by (rule read_eq [OF inv h len])
  ultimately show ?thesis by blast
qed

text \<open>The state after handle \<open>h\<close> is removed.\<close>

definition closed :: "nat \<Rightarrow> fs_state \<Rightarrow> fs_state" where
  "closed h s = s\<lparr>free_open_file_entries := (free_open_file_entries s)(h := FREE)\<rparr>"

lemma remove_open: "open_handle s h \<Longrightarrow> remove_from_open_file_table (int h) s = (0, closed h s)"
  by (simp add: remove_from_open_file_table_def valid_file_handle_def open_handle_def closed_def)

lemma closed_inv:
  assumes "fs_inv s"
  shows "fs_inv (closed h s)" and "offsets_inv s \<Longrightarrow> offsets_inv (closed h s)"
proof -
  have sub: "open_handle (closed h s) h' \<Longrightarrow> open_handle s h'" for h'
    by (simp add: open_handle_def closed_def split: if_splits)
  show "fs_inv (closed h s)"
    by (rule fs_inv_cong [OF assms])
      (use sub inv_handle(1,2,3) [OF assms] in \<open>auto simp: closed_def live_def entry_def block_addr_def block_of_def\<close>)
  show "offsets_inv (closed h s)" if "offsets_inv s"
    by (rule offsets_inv_cong [OF assms that]) (use sub in \<open>auto simp: closed_def\<close>)
qed

lemma abs_closed: "abs_fs c (closed h s) = (abs_fs c s)\<lparr>fds := (abs_fds s)(h := None)\<rparr>"
proof -
  have "abs_names (closed h s) = abs_names s" "abs_files (closed h s) = abs_files s"
    by (rule abs_same; simp add: closed_def)+
  moreover have "abs_fds (closed h s) = (abs_fds s)(h := None)"
    by (simp add: fun_eq_iff abs_fds_def open_handle_def handle_inode_def closed_def)
  ultimately show ?thesis by (simp add: abs_fs_def)
qed

lemma close_refines:
  assumes "fs_inv s" and "open_handle s h"
  shows "\<exists>t. remove_from_open_file_table (int h) s = (0, t) \<and> fs_inv t
    \<and> (offsets_inv s \<longrightarrow> offsets_inv t) \<and> spec_close h (abs_fs c s) = (0, abs_fs c t)"
  using remove_open [OF assms(2)] closed_inv [OF assms(1)] assms(2)
  by (auto simp: spec_close_def abs_closed abs_fds_def)

section \<open>Open refines the specification\<close>

lemma attach_refines:
  assumes inv: "fs_inv s" "offsets_inv s" and i: "live s i" "i \<noteq> 0"
    and off: "off \<le> i_size (inode_table s i)"
  shows "\<exists>r t. add_to_open_file_table (int i) off s = (r, t) \<and> fs_inv t \<and> offsets_inv t
    \<and> spec_attach i (unat off) (abs_fs c s) = (r, abs_fs c t)"
proof (cases rule: add_handle_cases [of "int i" off s])
  case full
  then have "first_index (\<lambda>h. abs_fds s h = None) 0 MAX_OPEN_FILES = None"
    by (simp add: first_index_eq_None abs_fds_def)
  with full inv show ?thesis by (simp add: spec_attach_def)
next
  case (added h)
  let ?t = "snd (add_to_open_file_table (int i) off s)"
  have first: "first_index (\<lambda>h. abs_fds s h = None) 0 MAX_OPEN_FILES = Some h"
    using added by (simp add: first_index_eq_Some abs_fds_def)
  have same: "abs_names ?t = abs_names s" "abs_files ?t = abs_files s"
    by (rule abs_same; simp add: added)+
  have fds: "abs_fds ?t = (abs_fds s)(h \<mapsto> (i, unat off))"
    using added(1) by (auto simp: fun_eq_iff abs_fds_def open_handle_def handle_inode_def added(4))
  have "spec_attach i (unat off) (abs_fs c s) = (int h, abs_fs c ?t)"
    by (simp add: spec_attach_def first same fds abs_fs_def)
  with add_handle_inv [OF inv(1) i, of off] add_handle_offsets [OF inv(2) off] added(4)
  show ?thesis by simp
qed

lemma truncate_refines:
  assumes inv: "fs_inv s" "offsets_inv s" and i: "live s i" "i \<noteq> 0"
    and safe: "\<forall>h. open_handle s h \<longrightarrow> handle_inode s h = i \<longrightarrow> of_offset (open_file_table s h) = 0"
  defines "t \<equiv> snd (truncate_inode i s)"
  shows "offsets_inv t" and "abs_fs c t = (abs_fs c s)\<lparr>files := (abs_files s)(i \<mapsto> [])\<rparr>"
    and "live t i" and "i_size (inode_table t i) = 0"
proof -
  have t: "freeinode_ts t = freeinode_ts s" "open_file_table t = open_file_table s"
      "free_open_file_entries t = free_open_file_entries s" "fs_data t = fs_data s"
      "inode_table t = (inode_table s)(i := (inode_table s i)\<lparr>i_size := 0\<rparr>)"
    using i(1) by (auto simp: t_def truncate_eq [OF inv(1) i(1)] has_data_def fun_eq_iff)
  show live: "live t i" and size: "i_size (inode_table t i) = 0"
    using i(1) by (simp_all add: live_def t)
  have sizes: "i_size (inode_table t j) = (if j = i then 0 else i_size (inode_table s j))" for j
    by (simp add: t)
  show "offsets_inv t"
    using inv(2) safe
    by (auto simp: offsets_inv_def offset_ok_def open_handle_def handle_inode_def t(2,3) sizes)
  have addr: "block_addr t j = block_addr s j" for j
    by (simp add: block_addr_def block_of_def t)
  have "abs_names t = abs_names s"
    using i(2) by (simp add: fun_eq_iff abs_names_def find_in_root_cong [of t s] t)
  moreover have "abs_files t = (abs_files s)(i \<mapsto> [])"
    using i by (auto simp: fun_eq_iff abs_files_def live_def content_def addr t)
  moreover have "abs_fds t = abs_fds s"
    by (simp add: fun_eq_iff abs_fds_def open_handle_def handle_inode_def t)
  ultimately show "abs_fs c t = (abs_fs c s)\<lparr>files := (abs_files s)(i \<mapsto> [])\<rparr>"
    by (simp add: abs_fs_def)
qed

lemma dir_full_iff:
  assumes inv: "fs_inv s"
  shows "dir_free (fs_data s) (block_addr s 0) = None \<longleftrightarrow> card (dom (abs_files s)) = MAX_DIR_ENTRIES"
proof -
  let ?used = "{k. k < MAX_DIR_ENTRIES \<and> entry s k \<noteq> -1}"
  have "bij_betw (\<lambda>k. nat (entry s k)) ?used (dom (abs_files s))"
    unfolding bij_betw_def
  proof
    show "inj_on (\<lambda>k. nat (entry s k)) ?used"
    proof (rule inj_onI)
      fix k l assume k: "k \<in> ?used" and l: "l \<in> ?used" and eq: "nat (entry s k) = nat (entry s l)"
      from k obtain i where i: "entry s k = int i" "i \<noteq> 0" "live s i"
        using inv_entry [OF inv, of k] by auto
      from l obtain j where j: "entry s l = int j"
        using inv_entry [OF inv, of l] by auto
      from eq i(1) j have "entry s l = int i" by simp
      with inv_slot [OF inv i(3,2)] i(1) k l show "k = l" by auto
    qed
    show "(\<lambda>k. nat (entry s k)) ` ?used = dom (abs_files s)"
    proof (intro equalityI subsetI)
      fix i assume "i \<in> (\<lambda>k. nat (entry s k)) ` ?used"
      then obtain k where k: "k < MAX_DIR_ENTRIES" "entry s k \<noteq> -1" and i: "i = nat (entry s k)"
        by auto
      obtain j where "entry s k = int j" "j \<noteq> 0" "live s j"
        using inv_entry [OF inv k] by blast
      with i show "i \<in> dom (abs_files s)" by (simp add: dom_def abs_files_def)
    next
      fix i assume "i \<in> dom (abs_files s)"
      then have "live s i" "i \<noteq> 0" by (auto simp: abs_files_def split: if_splits)
      from inv_slot [OF inv this] obtain k where "k < MAX_DIR_ENTRIES" "entry s k = int i" by auto
      then show "i \<in> (\<lambda>k. nat (entry s k)) ` ?used" by force
    qed
  qed
  then have card: "card (dom (abs_files s)) = card ?used" by (simp add: bij_betw_same_card)
  have full: "card ?used = MAX_DIR_ENTRIES \<longleftrightarrow> (\<forall>k<MAX_DIR_ENTRIES. entry s k \<noteq> -1)"
  proof
    assume "card ?used = MAX_DIR_ENTRIES"
    then have "?used = {..<MAX_DIR_ENTRIES}"
      by (intro card_subset_eq) auto
    then show "\<forall>k<MAX_DIR_ENTRIES. entry s k \<noteq> -1" by blast
  next
    assume "\<forall>k<MAX_DIR_ENTRIES. entry s k \<noteq> -1"
    then have "?used = {..<MAX_DIR_ENTRIES}" by auto
    then show "card ?used = MAX_DIR_ENTRIES" by simp
  qed
  show ?thesis
    unfolding card full by (simp add: dir_free_def first_index_eq_None entry_def)
qed

text \<open>A path the library takes, up to the 39 characters that an entry's name holds.\<close>

definition proper_path :: "string \<Rightarrow> bool" where
  "proper_path p \<longleftrightarrow> valid_pathname (Some p) \<and> strlen p \<le> MAX_FILE_NAME"

lemma proper_pathD:
  assumes "proper_path p"
  shows "p \<noteq> []" and "strlen (tl p) \<noteq> 0" and "strlen (tl p) < MAX_FILE_NAME"
    and "proper_name (cstr (tl p))"
proof -
  obtain q where p: "p = CHR ''/'' # q"
    using assms by (cases p) (auto simp: proper_path_def valid_pathname_def char_at_def strlen_def)
  with assms show "p \<noteq> []" "strlen (tl p) \<noteq> 0" "strlen (tl p) < MAX_FILE_NAME"
    "proper_name (cstr (tl p))"
    by (auto simp: proper_path_def valid_pathname_def strlen_def proper_name_def)
qed

lemma dir_find_cstr: "dir_find m a (cstr n) = dir_find m a n"
proof -
  have "matching_entry m a (cstr n) = matching_entry m a n"
    by (simp add: fun_eq_iff matching_entry_def name_matches_def)
  then show ?thesis by (simp add: dir_find_def)
qed

lemma abs_names_lookup:
  assumes "fs_inv s" and "proper_path p"
  shows "abs_names s (cstr (tl p)) = (if tfs_lookup_unsynchronized (Some p) s = -1 then None
      else Some (nat (tfs_lookup_unsynchronized (Some p) s)))"
  using proper_pathD(4) [OF assms(2)] assms(2)
  by (simp add: abs_names_def find_in_root [OF assms(1)] dir_find_cstr tfs_lookup_unsynchronized_def
      proper_path_def)

text \<open>The state with a new, empty file \<open>i\<close> named \<open>n\<close> in entry \<open>k\<close>.\<close>

definition with_entry :: "nat \<Rightarrow> nat \<Rightarrow> string \<Rightarrow> fs_state \<Rightarrow> fs_state" where
  "with_entry i k n s = (with_file i s)\<lparr>fs_data := set_d_name (block_addr s 0) k (entry_name n)
     (set_d_inumber (block_addr s 0) k (int i) (fs_data s))\<rparr>"

lemma with_entry_fields:
  "inode_table (with_entry i k n s) j = (if j = i then (inode_table s i)
     \<lparr>i_node_type := T_FILE, i_size := 0, i_data_block := -1\<rparr> else inode_table s j)"
  "open_file_table (with_entry i k n s) = open_file_table s"
  "free_open_file_entries (with_entry i k n s) = free_open_file_entries s"
  "fs_data (with_entry i k n s) = set_d_name (block_addr s 0) k (entry_name n)
     (set_d_inumber (block_addr s 0) k (int i) (fs_data s))"
  by (simp_all add: with_entry_def)

lemma with_entry_refines:
  assumes inv: "fs_inv s" and i: "i < INODE_TABLE_SIZE" "i \<noteq> 0" "\<not> live s i"
    and free: "dir_free (fs_data s) (block_addr s 0) = Some k"
    and new: "find_in_dir ROOT_DIR_INUM n s = -1" and n: "strlen n < MAX_FILE_NAME"
  shows "abs_fs c (with_entry i k n s) = (abs_fs c s)
    \<lparr>names := (abs_names s)(cstr n \<mapsto> i), files := (abs_files s)(i \<mapsto> [])\<rparr>"
proof -
  let ?t = "with_entry i k n s"
  have inv_t: "fs_inv ?t" using create_inv(1) [OF inv i free] by (simp add: with_entry_def)
  have k: "k < MAX_DIR_ENTRIES" using free by (simp add: dir_free_def first_index_eq_Some)
  have live: "live ?t j \<longleftrightarrow> j = i \<or> live s j" for j
    using i by (auto simp: live_def with_entry_def)
  have addr: "block_addr ?t j = block_addr s j" if "j \<noteq> i" for j
    using that by (simp add: block_addr_def block_of_def with_entry_fields)
  have "find_in_dir ROOT_DIR_INUM m ?t = (if cstr m = cstr n then int i else find_in_dir ROOT_DIR_INUM m s)"
    if "strlen m < MAX_FILE_NAME" for m
    using dir_find_insert [OF free _ _ _ n with_entry_fields(4) that] new i
    by (simp add: find_in_root inv inv_t addr)
  then have names: "abs_names ?t = (abs_names s)(cstr n \<mapsto> i)"
    using n
    by (auto simp: fun_eq_iff abs_names_def proper_name_def strlen_def cstr_ident split: if_splits)
  have content: "content ?t j = content s j" if j: "live s j" "j \<noteq> 0" for j
  proof -
    have ji: "j \<noteq> i" using i(3) j(1) by metis
    show ?thesis
    proof (cases "has_data s j")
      case True
      have same: "block_addr ?t j = block_addr s j" "inode_table ?t j = inode_table s j"
        using ji addr by (simp_all add: with_entry_fields)
      have apart: "block_addr s 0 + BLOCK_SIZE \<le> block_addr s j
          \<or> block_addr s j + BLOCK_SIZE \<le> block_addr s 0"
        using inv_blocks_apart [OF inv inv_root(1) [OF inv] True] j(2) by simp
      have size: "unat (i_size (inode_table s j)) \<le> BLOCK_SIZE" by (rule inv_size_le [OF inv j(1)])
      show ?thesis
        unfolding content_def same
      proof (rule mem_read_cong)
        fix l assume "l < unat (i_size (inode_table s j))"
        with apart size show "fs_data ?t (block_addr s j + l) = fs_data s (block_addr s j + l)"
          unfolding with_entry_fields(4) by (intro set_d_entry_other [OF k]) auto
      qed
    next
      case False
      then show ?thesis
        using j(1) ji by (simp add: content_def has_data_def with_entry_fields)
    qed
  qed
  have files: "abs_files ?t = (abs_files s)(i \<mapsto> [])"
    using i content
    by (auto simp: fun_eq_iff abs_files_def live) (simp add: content_def with_entry_fields)
  have "abs_fds ?t = abs_fds s"
    by (simp add: fun_eq_iff abs_fds_def open_handle_def handle_inode_def with_entry_fields)
  with names files show ?thesis by (simp add: abs_fs_def)
qed

lemma spec_open_create:
  assumes "\<not> closing a" and "names a n = None" and "flags AND TFS_O_CREAT \<noteq> 0"
    and "card (dom (files a)) \<noteq> MAX_DIR_ENTRIES" and "files a i = None"
    and "spec_attach i 0 (a\<lparr>names := (names a)(n \<mapsto> i), files := (files a)(i \<mapsto> [])\<rparr>) = (r, b)"
  shows "spec_open n flags a r b"
  using assms unfolding spec_open_def by auto

text \<open>
  Truncating leaves the handles of other users of the file with offsets past its end; an
  admissible open truncates only a file whose open handles are all at offset 0.
\<close>

definition truncate_safe :: "string \<Rightarrow> int \<Rightarrow> fs_state \<Rightarrow> bool" where
  "truncate_safe p flags s \<longleftrightarrow> (flags AND TFS_O_TRUNC \<noteq> 0 \<longrightarrow> (\<forall>h. open_handle s h \<longrightarrow>
     of_inumber (open_file_table s h) = tfs_lookup_unsynchronized (Some p) s \<longrightarrow>
     of_offset (open_file_table s h) = 0))"

lemma open_existing_refines:
  assumes inv: "fs_inv s" "offsets_inv s" and p: "proper_path p" and safe: "truncate_safe p flags s"
    and found: "tfs_lookup_unsynchronized (Some p) s = int i" "i \<noteq> 0" "live s i"
  shows "\<exists>r t. tfs_open_unsynchronized (Some p) flags s = Inr (r, t) \<and> fs_inv t \<and> offsets_inv t
    \<and> spec_open (cstr (tl p)) flags (abs_fs False s) r (abs_fs False t)"
proof -
  define s1 where "s1 = (if flags AND TFS_O_TRUNC \<noteq> 0 then snd (truncate_inode i s) else s)"
  define a1 where "a1 = (if flags AND TFS_O_TRUNC \<noteq> 0
    then (abs_fs False s)\<lparr>files := (abs_files s)(i \<mapsto> [])\<rparr> else abs_fs False s)"
  have zero: "flags AND TFS_O_TRUNC \<noteq> 0 \<Longrightarrow> open_handle s h \<Longrightarrow> handle_inode s h = i
      \<Longrightarrow> of_offset (open_file_table s h) = 0" for h
    using safe inv_handle(1) [OF inv(1), of h] found(1) by (auto simp: truncate_safe_def)
  have s1: "fs_inv s1 \<and> offsets_inv s1 \<and> live s1 i \<and> abs_fs False s1 = a1"
  proof (cases "flags AND TFS_O_TRUNC = 0")
    case True
    with inv found(3) show ?thesis by (simp add: s1_def a1_def)
  next
    case False
    with zero have "\<forall>h. open_handle s h \<longrightarrow> handle_inode s h = i \<longrightarrow> of_offset (open_file_table s h) = 0"
      by blast
    from truncate_refines [OF inv found(3,2) this] truncate_inv [OF inv(1) found(3,2)] False
    show ?thesis by (simp add: s1_def a1_def)
  qed
  define off where "off = (if flags AND TFS_O_APPEND \<noteq> 0 then i_size (inode_table s1 i) else 0)"
  have off: "off \<le> i_size (inode_table s1 i)" by (simp add: off_def)
  have "abs_files s1 i = Some (content s1 i)" using s1 found(2) by (simp add: abs_files_def)
  then have len: "length (the (files a1 i)) = unat (i_size (inode_table s1 i))"
    using s1 by (metis abs_fs_simps(2) length_content option.sel)
  have "tfs_open_unsynchronized (Some p) flags s = Inr (add_to_open_file_table (int i) off s1)"
    using found truncate_eq [OF inv(1) found(3)]
    by (simp add: tfs_open_unsynchronized_def inode_get_live s1_def off_def)
  moreover obtain r t where rt: "add_to_open_file_table (int i) off s1 = (r, t)" "fs_inv t"
      "offsets_inv t" "spec_attach i (unat off) (abs_fs False s1) = (r, abs_fs False t)"
    using attach_refines [of s1 i off False] s1 found(2) off by auto
  moreover have "spec_open (cstr (tl p)) flags (abs_fs False s) r (abs_fs False t)"
    using rt(4) s1 found(1) len
    by (auto simp: spec_open_def abs_names_lookup [OF inv(1) p] a1_def off_def Let_def)
  ultimately show ?thesis by auto
qed

lemma open_missing_refines:
  assumes inv: "fs_inv s" "offsets_inv s" and p: "proper_path p"
    and missing: "tfs_lookup_unsynchronized (Some p) s = -1"
  shows "\<exists>r t. tfs_open_unsynchronized (Some p) flags s = Inr (r, t) \<and> fs_inv t \<and> offsets_inv t
    \<and> spec_open (cstr (tl p)) flags (abs_fs False s) r (abs_fs False t)"
proof (cases "flags AND TFS_O_CREAT = 0")
  case True
  then have "tfs_open_unsynchronized (Some p) flags s = Inr (-1, s)"
    using missing by (simp add: tfs_open_unsynchronized_def)
  moreover have "spec_open (cstr (tl p)) flags (abs_fs False s) (-1) (abs_fs False s)"
    using True missing by (simp add: spec_open_def abs_names_lookup [OF inv(1) p])
  ultimately show ?thesis using inv by simp
next
  case False
  note p' = proper_pathD [OF p]
  have none: "names (abs_fs False s) (cstr (tl p)) = None"
    using missing by (simp add: abs_names_lookup [OF inv(1) p])
  obtain i where i: "i < INODE_TABLE_SIZE" "i \<noteq> 0" "\<not> live s i"
    and create: "inode_create T_FILE s = (int i, with_file i s)"
    using inode_create_file [OF inv(1)] .
  have open_eq: "tfs_open_unsynchronized (Some p) flags s =
      (let (r, s2) = add_dir_entry ROOT_DIR_INUM (int i) (tl p) (with_file i s)
       in if r = -1 then Inr (-1, snd (inode_delete (int i) s2))
          else Inr (add_to_open_file_table (int i) 0 s2))"
    using missing False p'(1)
    by (simp add: tfs_open_unsynchronized_def create skip_char_def Let_def)
  show ?thesis
  proof (cases "dir_free (fs_data s) (block_addr s 0)")
    case None
    let ?t = "snd (inode_delete (int i) (with_file i s))"
    note undo = undo_create_inv [OF inv(1) i]
    have "tfs_open_unsynchronized (Some p) flags s = Inr (-1, ?t)"
      unfolding open_eq add_root_entry [OF inv(1) i(1,2)] by (simp add: None)
    moreover have "abs_names ?t = abs_names s" "abs_files ?t = abs_files s"
      by (rule abs_same_live [OF undo(3,4) inv_root(2) [OF inv(1)] undo(5)]; assumption)+
    moreover have "abs_fds ?t = abs_fds s"
      by (simp add: fun_eq_iff abs_fds_def open_handle_def handle_inode_def undo(6,7))
    ultimately show ?thesis
      using None undo(1) undo(2) [OF inv(2)] none False dir_full_iff [OF inv(1)]
      by (auto simp: abs_fs_def spec_open_def)
  next
    case (Some k)
    let ?t = "with_entry i k (tl p) s"
    have "find_in_dir ROOT_DIR_INUM (tl p) s = -1"
      using missing p by (simp add: tfs_lookup_unsynchronized_def proper_path_def)
    note abs_t = with_entry_refines [OF inv(1) i Some this p'(3)]
    have t: "fs_inv ?t" "offsets_inv ?t" "live ?t i"
      using create_inv [OF inv(1) i Some] inv(2) by (simp_all add: with_entry_def)
    obtain r u where ru: "add_to_open_file_table (int i) 0 ?t = (r, u)" "fs_inv u" "offsets_inv u"
        "spec_attach i 0 (abs_fs False ?t) = (r, abs_fs False u)"
      using attach_refines [OF t(1,2,3) i(2), of 0 False] by auto
    have "tfs_open_unsynchronized (Some p) flags s = Inr (r, u)"
      unfolding open_eq add_root_entry [OF inv(1) i(1,2)]
      using ru(1) p'(2) by (simp add: Some with_entry_def)
    moreover have "card (dom (files (abs_fs False s))) \<noteq> MAX_DIR_ENTRIES"
      using Some dir_full_iff [OF inv(1)] by simp
    then have "spec_open (cstr (tl p)) flags (abs_fs False s) r (abs_fs False u)"
      using ru(4) none False i(3)
      by (intro spec_open_create [of _ _ _ i]) (auto simp: abs_t abs_files_def)
    ultimately show ?thesis using ru(2,3) by blast
  qed
qed

lemma lookup_cases:
  assumes "fs_inv s"
  obtains (missing) "tfs_lookup_unsynchronized name s = -1"
    | (found) i where "tfs_lookup_unsynchronized name s = int i" and "i \<noteq> 0" and "live s i"
proof (cases "valid_pathname name")
  case False
  then show thesis by (intro missing) (simp add: tfs_lookup_unsynchronized_def)
next
  case True
  then have eq: "tfs_lookup_unsynchronized name s = find_in_dir ROOT_DIR_INUM (tl (the name)) s"
    by (simp add: tfs_lookup_unsynchronized_def)
  show thesis
  proof (cases rule: find_in_root_cases [OF assms, of "tl (the name)"])
    case 1
    with eq show thesis by (intro missing) simp
  next
    case (2 i)
    with eq show thesis by (intro found [of i]) simp_all
  qed
qed

theorem open_refines:
  assumes inv: "fs_inv s" "offsets_inv s" and p: "proper_path p" and safe: "truncate_safe p flags s"
  shows "\<exists>r t. tfs_open_unsynchronized (Some p) flags s = Inr (r, t) \<and> fs_inv t \<and> offsets_inv t
    \<and> spec_open (cstr (tl p)) flags (abs_fs False s) r (abs_fs False t)"
proof (cases rule: lookup_cases [OF inv(1), of "Some p"])
  case 1
  then show ?thesis by (rule open_missing_refines [OF inv p])
next
  case (2 i)
  then show ?thesis by (rule open_existing_refines [OF inv p safe])
qed

end
