(* ===== verification/FS_Sync.thy ===== *)
theory FS_Sync
  imports FS_Spec
begin

text \<open>
  The public operations of \<open>fs/operations.c\<close> run one at a time: what the locking around the
  unsynchronised bodies comes to when the mutex calls succeed, the count of open files, and
  the refinement of whole histories.
\<close>

section \<open>Locking around the bodies\<close>

text \<open>No mutex is held and the coming mutex calls succeed.\<close>

definition quiet :: "ops_state \<Rightarrow> bool" where
  "quiet s \<longleftrightarrow> pthread_rets s = [] \<and> (\<forall>l. \<not> locked s l)"

lemma lock_free:
  "pthread_rets s = [] \<Longrightarrow> \<not> locked s l
    \<Longrightarrow> pthread_mutex_lock l s = Inr (0, s\<lparr>locked := (locked s)(l := True)\<rparr>)"
  by (simp add: pthread_mutex_lock_def pthread_ret_def)

lemma unlock_held:
  "pthread_rets s = [] \<Longrightarrow> locked s l
    \<Longrightarrow> pthread_mutex_unlock l s = (0, s\<lparr>locked := (locked s)(l := False)\<rparr>)"
  by (simp add: pthread_mutex_unlock_def pthread_ret_def)

lemma unlock_stray:
  "pthread_rets s = [] \<Longrightarrow> \<not> locked s l
    \<Longrightarrow> pthread_mutex_unlock l s = (0, s\<lparr>stray_unlocks := Suc (stray_unlocks s)\<rparr>)"
  by (simp add: pthread_mutex_unlock_def pthread_ret_def)

lemma lock_again [simp]: "(\<lambda>_. False)(a := False) = (\<lambda>_. False)"
  by auto

lemma quiet_cases:
  assumes "quiet s"
  obtains f c n u b where "s = \<lparr>fs = f, called_destroy = c, open_files = n,
    locked = (\<lambda>_. False), pthread_rets = [], stray_unlocks = u, broadcasts = b\<rparr>"
proof (rule that)
  have "locked s = (\<lambda>_. False)" using assms by (auto simp: quiet_def)
  with assms show "s = \<lparr>fs = fs s, called_destroy = called_destroy s, open_files = open_files s,
      locked = (\<lambda>_. False), pthread_rets = [], stray_unlocks = stray_unlocks s,
      broadcasts = broadcasts s\<rparr>"
    by (simp add: quiet_def)
qed

lemmas lock_simps = lock_free unlock_held unlock_stray unlock_destroy_global_def
  unlock_global_destroy_def fun_upd_twist

lemma tfs_lookup_quiet:
  assumes "quiet s"
  shows "tfs_lookup name s = Inr (tfs_lookup_unsynchronized name (fs s), s)"
  by (rule quiet_cases [OF assms]) (simp add: tfs_lookup_def lock_simps)

lemma tfs_write_quiet:
  assumes "quiet s"
  shows "tfs_write h buffer len s =
    andthen (tfs_write_unsynchronized h buffer len (fs s)) (\<lambda>(ret, f). Inr (ret, s\<lparr>fs := f\<rparr>))"
  by (rule quiet_cases [OF assms], cases "tfs_write_unsynchronized h buffer len (fs s)")
    (auto simp: tfs_write_def lock_simps)

lemma tfs_read_quiet:
  assumes "quiet s"
  shows "tfs_read h buffer len s =
    andthen (tfs_read_unsynchronized h buffer len (fs s)) (\<lambda>(ret, b, f). Inr (ret, b, s\<lparr>fs := f\<rparr>))"
  by (rule quiet_cases [OF assms], cases "tfs_read_unsynchronized h buffer len (fs s)")
    (auto simp: tfs_read_def lock_simps)

lemma tfs_open_quiet:
  assumes "quiet s"
  shows "tfs_open name flags s =
    (if called_destroy s = DESTROY then Inr (-1, s)
     else andthen (tfs_open_unsynchronized name flags (fs s)) (\<lambda>(ret, f).
       Inr (ret, s\<lparr>fs := f, open_files := (if ret = -1 then open_files s else open_files s + 1)\<rparr>)))"
  by (rule quiet_cases [OF assms], cases "tfs_open_unsynchronized name flags (fs s)")
    (auto simp: tfs_open_def lock_simps)

text \<open>Closing an open handle.\<close>

lemma tfs_close_quiet:
  assumes "quiet s" and "open_handle (fs s) h"
  shows "tfs_close (int h) s = Inr (0, s\<lparr>fs := closed h (fs s), open_files := open_files s - 1,
    broadcasts := (if open_files s = 1 \<and> called_destroy s = DESTROY
      then Suc (broadcasts s) else broadcasts s)\<rparr>)"
  using assms(2)
  by (rule_tac quiet_cases [OF assms(1)])
    (auto simp: tfs_close_def lock_simps remove_open Let_def)

text \<open>
  Closing a handle that is not open: the failure branch unlocks both mutexes and then falls
  through to the rest of the function, which counts a file down and unlocks them again.
\<close>

lemma remove_not_open:
  "\<not> valid_file_handle fh \<or> free_open_file_entries s (nat fh) = FREE
    \<Longrightarrow> remove_from_open_file_table fh s = (-1, s)"
  by (auto simp: remove_from_open_file_table_def)

lemma tfs_close_not_open:
  assumes "quiet s" and "\<not> valid_file_handle fh \<or> free_open_file_entries (fs s) (nat fh) = FREE"
  shows "tfs_close fh s = Inr (-1, s\<lparr>open_files := open_files s - 1,
    broadcasts := (if open_files s = 1 \<and> called_destroy s = DESTROY
      then Suc (broadcasts s) else broadcasts s),
    stray_unlocks := stray_unlocks s + 2\<rparr>)"
  using remove_not_open [OF assms(2)]
  by (rule_tac quiet_cases [OF assms(1)]) (auto simp: tfs_close_def lock_simps Let_def)

section \<open>The count of open files\<close>

definition open_count :: "fs_state \<Rightarrow> nat" where
  "open_count s = card {h. open_handle s h}"

lemma dom_abs_fds: "dom (abs_fds s) = {h. open_handle s h}"
  by (auto simp: abs_fds_def split: if_splits)

lemma finite_open [simp]: "finite {h. open_handle s h}"
  by (rule finite_subset [of _ "{..<MAX_OPEN_FILES}"]) (auto simp: open_handle_def)

lemma open_count_closed: "open_handle s h \<Longrightarrow> open_count s = Suc (open_count (closed h s))"
proof -
  assume h: "open_handle s h"
  have "{h'. open_handle (closed h s) h'} = {h'. open_handle s h'} - {h}"
    by (auto simp: open_handle_def closed_def)
  moreover have "card {h'. open_handle s h'} = Suc (card ({h'. open_handle s h'} - {h}))"
    using h by (intro card.remove) simp_all
  ultimately show ?thesis by (simp only: open_count_def)
qed

lemma spec_attach_fds:
  "(r, b) = spec_attach i off a \<Longrightarrow> (r = -1 \<and> fds b = fds a)
    \<or> (\<exists>h v. h < MAX_OPEN_FILES \<and> r = int h \<and> fds a h = None \<and> fds b = (fds a)(h \<mapsto> v))"
  by (auto simp: spec_attach_def first_index_eq_Some split: option.splits)

lemma spec_open_fds:
  assumes "spec_open n flags a r b"
  shows "(r = -1 \<and> fds b = fds a)
    \<or> (\<exists>h v. h < MAX_OPEN_FILES \<and> r = int h \<and> fds a h = None \<and> fds b = (fds a)(h \<mapsto> v))"
proof -
  have "(r = -1 \<and> fds b = fds a)
      \<or> (\<exists>i off c. (r, b) = spec_attach i off c \<and> fds c = fds a)"
  proof (cases "names a n")
    case None
    show ?thesis
    proof (cases "r = -1 \<and> b = a")
      case False
      with assms None obtain i where "(r, b) = spec_attach i 0
          (a\<lparr>names := (names a)(n \<mapsto> i), files := (files a)(i \<mapsto> [])\<rparr>)"
        by (auto simp: spec_open_def split: if_splits)
      then show ?thesis by (intro disjI2 exI conjI) (assumption, simp)
    qed simp
  next
    case (Some i)
    define c where "c = (if flags AND TFS_O_TRUNC \<noteq> 0 then a\<lparr>files := (files a)(i \<mapsto> [])\<rparr> else a)"
    then have "fds c = fds a" by simp
    moreover have "if closing a then r = -1 \<and> b = a else (r, b) = spec_attach i
        (if flags AND TFS_O_APPEND \<noteq> 0 then length (the (files c i)) else 0) c"
      using assms Some by (simp only: spec_open_def Let_def c_def option.case)
    ultimately show ?thesis by (cases "closing a") auto
  qed
  then show ?thesis using spec_attach_fds by metis
qed

lemma open_count_open:
  assumes "spec_open n flags (abs_fs c s) r (abs_fs d t)"
  shows "open_count t = (if r = -1 then open_count s else Suc (open_count s))"
  using spec_open_fds [OF assms]
proof
  assume "\<exists>h v. h < MAX_OPEN_FILES \<and> r = int h \<and> fds (abs_fs c s) h = None
      \<and> fds (abs_fs d t) = (fds (abs_fs c s))(h \<mapsto> v)"
  then obtain h v where h: "r = int h" "abs_fds s h = None" "abs_fds t = (abs_fds s)(h \<mapsto> v)"
    by auto
  then have "{h. open_handle t h} = insert h {h. open_handle s h}"
    and "h \<notin> {h. open_handle s h}"
    by (simp_all flip: dom_abs_fds) (simp add: dom_def)
  with h(1) show ?thesis by (simp add: open_count_def)
qed (simp add: open_count_def flip: dom_abs_fds)

section \<open>Histories\<close>

datatype fs_op = Open string int | Close nat | Write nat string | Read nat nat

text \<open>The answer of an operation: its return value, and the bytes a read gave.\<close>

type_synonym fs_ret = "int \<times> string"

fun fs_step :: "ops_state \<Rightarrow> fs_op \<Rightarrow> fault + fs_ret \<times> ops_state" where
  "fs_step s (Open p flags) = andthen (tfs_open (Some p) flags s) (\<lambda>(r, t). Inr ((r, []), t))"
| "fs_step s (Close h) = andthen (tfs_close (int h) s) (\<lambda>(r, t). Inr ((r, []), t))"
| "fs_step s (Write h d) =
     andthen (tfs_write (int h) d (of_nat (length d)) s) (\<lambda>(r, t). Inr ((r, []), t))"
| "fs_step s (Read h len) =
     andthen (tfs_read (int h) (replicate len NUL) (of_nat len) s)
       (\<lambda>(r, b, t). Inr ((r, take (nat r) b), t))"

text \<open>
  What a caller has to respect: paths of at most 40 characters, handles that are open, no
  truncation under other handles, and objects below \<open>2 ^ 63\<close> bytes.
\<close>

fun fs_ok :: "ops_state \<Rightarrow> fs_op \<Rightarrow> bool" where
  "fs_ok s (Open p flags) \<longleftrightarrow> proper_path p \<and> truncate_safe p flags (fs s)"
| "fs_ok s (Close h) \<longleftrightarrow> open_handle (fs s) h"
| "fs_ok s (Write h d) \<longleftrightarrow> open_handle (fs s) h \<and> length d < 2 ^ 63"
| "fs_ok s (Read h len) \<longleftrightarrow> open_handle (fs s) h \<and> len < 2 ^ 63"

fun fs_spec :: "spec_fs \<Rightarrow> fs_op \<Rightarrow> fs_ret \<Rightarrow> spec_fs \<Rightarrow> bool" where
  "fs_spec a (Open p flags) r b \<longleftrightarrow> spec_open (cstr (tl p)) flags a (fst r) b \<and> snd r = []"
| "fs_spec a (Close h) r b \<longleftrightarrow> spec_close h a = (fst r, b) \<and> snd r = []"
| "fs_spec a (Write h d) r b \<longleftrightarrow> spec_write h d a = (fst r, b) \<and> snd r = []"
| "fs_spec a (Read h len) r b \<longleftrightarrow> spec_read h len a = (r, b)"

definition ops_inv :: "ops_state \<Rightarrow> bool" where
  "ops_inv s \<longleftrightarrow> quiet s \<and> fs_inv (fs s) \<and> offsets_inv (fs s)
     \<and> open_files s = int (open_count (fs s)) \<and> stray_unlocks s = 0"

definition abs_ops :: "ops_state \<Rightarrow> spec_fs" where
  "abs_ops s = abs_fs (called_destroy s = DESTROY) (fs s)"

lemma closing_abs_ops: "closing (abs_ops s) = (called_destroy s = DESTROY)"
  by (simp add: abs_ops_def)

lemma tfs_init_inv:
  assumes "quiet s" and "stray_unlocks s = 0"
  shows "fst (tfs_init s) = 0" and "ops_inv (snd (tfs_init s))"
    and "called_destroy (snd (tfs_init s)) = INIT" and "\<not> open_handle (fs (snd (tfs_init s))) h"
proof -
  note root = create_root [of "fs s"]
  have init: "tfs_init s = (0, s\<lparr>called_destroy := INIT, open_files := 0,
      fs := snd (inode_create T_DIRECTORY (state_init (fs s)))\<rparr>)"
    using root(1) by (auto simp: tfs_init_def Let_def split: prod.splits)
  then show "fst (tfs_init s) = 0" "called_destroy (snd (tfs_init s)) = INIT"
    "\<not> open_handle (fs (snd (tfs_init s))) h"
    using root(3) by simp_all
  show "ops_inv (snd (tfs_init s))"
    using root(2,3) assms by (simp add: init ops_inv_def quiet_def offsets_inv_def open_count_def)
qed

lemma step_open:
  assumes "ops_inv s" and "fs_ok s (Open p flags)"
  shows "\<exists>r t. fs_step s (Open p flags) = Inr (r, t) \<and> ops_inv t
    \<and> fs_spec (abs_ops s) (Open p flags) r (abs_ops t)"
proof (cases "called_destroy s = DESTROY")
  case True
  with assms show ?thesis
    by (simp add: ops_inv_def tfs_open_quiet abs_ops_def spec_open_def)
next
  case False
  obtain r f where rf: "tfs_open_unsynchronized (Some p) flags (fs s) = Inr (r, f)" "fs_inv f"
    "offsets_inv f" "spec_open (cstr (tl p)) flags (abs_fs False (fs s)) r (abs_fs False f)"
    using open_refines [of "fs s" p flags] assms by (auto simp: ops_inv_def)
  with False assms open_count_open [OF rf(4)] show ?thesis
    by (simp add: ops_inv_def tfs_open_quiet abs_ops_def quiet_def)
qed

lemma step_close:
  assumes "ops_inv s" and "fs_ok s (Close h)"
  shows "\<exists>r t. fs_step s (Close h) = Inr (r, t) \<and> ops_inv t
    \<and> fs_spec (abs_ops s) (Close h) r (abs_ops t)"
  using assms closed_inv [of "fs s" h] open_count_closed [of "fs s" h]
  by (simp add: ops_inv_def tfs_close_quiet abs_ops_def abs_closed spec_close_def abs_fds_def
      quiet_def)

lemma unat_of_length: "n < 2 ^ 63 \<Longrightarrow> unat (of_nat n :: size_t) = n"
  by (simp add: unat_of_nat)

lemma step_write:
  assumes inv: "ops_inv s" and ok: "fs_ok s (Write h d)"
  shows "\<exists>r t. fs_step s (Write h d) = Inr (r, t) \<and> ops_inv t
    \<and> fs_spec (abs_ops s) (Write h d) r (abs_ops t)"
proof -
  let ?c = "called_destroy s = DESTROY"
  have h: "open_handle (fs s) h" "offset_ok (fs s) h" "length d < 2 ^ 63"
    using assms by (auto simp: ops_inv_def offsets_inv_def)
  note len = unat_of_length [OF h(3)]
  obtain r f where rf: "tfs_write_unsynchronized (int h) d (of_nat (length d)) (fs s) = Inr (r, f)"
      "fs_inv f" "offsets_inv f" "spec_write h d (abs_fs ?c (fs s)) = (r, abs_fs ?c f)"
    using write_refines [of "fs s" h "of_nat (length d)" d ?c] h inv len
    by (auto simp: ops_inv_def)
  have "dom (abs_fds f) = dom (abs_fds (fs s))"
  proof -
    have "fds (abs_fs ?c f) = fds (snd (spec_write h d (abs_fs ?c (fs s))))" by (simp add: rf(4))
    then show ?thesis using h(1)
      by (auto simp: spec_write_def Let_def abs_fds_def dom_def split: if_splits)
  qed
  then have "open_count f = open_count (fs s)" by (simp add: open_count_def dom_abs_fds)
  with rf inv show ?thesis
    by (simp add: ops_inv_def tfs_write_quiet abs_ops_def quiet_def)
qed

lemma step_read:
  assumes inv: "ops_inv s" and ok: "fs_ok s (Read h len)"
  shows "\<exists>r t. fs_step s (Read h len) = Inr (r, t) \<and> ops_inv t
    \<and> fs_spec (abs_ops s) (Read h len) r (abs_ops t)"
proof -
  let ?c = "called_destroy s = DESTROY" and ?b = "replicate len NUL"
  have h: "open_handle (fs s) h" "offset_ok (fs s) h" "len < 2 ^ 63"
    using assms by (auto simp: ops_inv_def offsets_inv_def)
  note len = unat_of_length [OF h(3)]
  obtain r bytes f where
    rf: "tfs_read_unsynchronized (int h) ?b (of_nat len) (fs s) = Inr (r, bytes @ drop (length bytes) ?b, f)"
      "fs_inv f" "offsets_inv f" "spec_read h len (abs_fs ?c (fs s)) = ((r, bytes), abs_fs ?c f)"
    using read_refines [of "fs s" h "of_nat len" ?b ?c] h inv len
    by (auto simp: ops_inv_def)
  have r: "r = int (length bytes)"
    using rf(4) h(1) by (auto simp: spec_read_def abs_fds_def Let_def)
  have "dom (abs_fds f) = dom (abs_fds (fs s))"
  proof -
    have "fds (abs_fs ?c f) = fds (snd (spec_read h len (abs_fs ?c (fs s))))" by (simp add: rf(4))
    then show ?thesis using h(1)
      by (auto simp: spec_read_def Let_def abs_fds_def dom_def split: if_splits)
  qed
  then have "open_count f = open_count (fs s)" by (simp add: open_count_def dom_abs_fds)
  with rf inv r show ?thesis
    by (simp add: ops_inv_def tfs_read_quiet abs_ops_def quiet_def)
qed

text \<open>A read into any buffer.\<close>

lemma tfs_read_refines:
  assumes "ops_inv s" and "open_handle (fs s) h" and "unat len \<le> length buffer"
  shows "\<exists>r bs t. tfs_read (int h) buffer len s = Inr (r, bs @ drop (length bs) buffer, t)
    \<and> fs_inv (fs t) \<and> offsets_inv (fs t)
    \<and> spec_read h (unat len) (abs_ops s) = ((r, bs), abs_ops t)"
proof -
  let ?c = "called_destroy s = DESTROY"
  have inv: "quiet s" "fs_inv (fs s)" "offset_ok (fs s) h" "offsets_inv (fs s)"
    using assms(1,2) by (auto simp: ops_inv_def offsets_inv_def)
  from read_refines [OF inv(2) assms(2) inv(3) assms(3), of ?c] inv(4) show ?thesis
    by (auto simp: tfs_read_quiet [OF inv(1)] abs_ops_def)
qed

interpretation tfs: refinement fs_step ops_inv fs_ok abs_ops fs_spec
proof
  fix s x
  assume "ops_inv s" and "fs_ok s x"
  then show "\<exists>r t. fs_step s x = Inr (r, t) \<and> ops_inv t \<and> fs_spec (abs_ops s) x r (abs_ops t)"
    using step_open step_close step_write step_read by (cases x) blast+
qed

end
