(* ===== verification/FS_Shutdown.thy ===== *)
theory FS_Shutdown
  imports FS_Sync
begin

text \<open>
  The operations of \<open>fs/operations.c\<close> run by concurrent threads, with
  \<open>tfs_destroy_after_all_closed\<close>, which waits for the last close. Each thread has a program
  counter; a step of a thread runs the code between two mutex calls. The bodies between the
  locks are the functions of \<open>FS_Operations\<close>. Any thread may call any operation with any
  arguments at any time, and a wait on the condition variable may return spuriously. Mutex calls
  succeed here; their failure branches are in \<open>FS_Operations\<close>.
\<close>

section \<open>Threads\<close>

datatype io = IO_Lookup "string option" | IO_Write int string size_t | IO_Read int string size_t

datatype pc =
    Idle
  | Open_Lock1 "string option" int | Open_Lock2 "string option" int
  | Open_Body "string option" int | Open_Unlock2 int | Open_Unlock1 int
  | Close_Lock1 int | Close_Lock2 int | Close_Body int | Close_Fail1 | Close_Fail2
  | Close_Count int | Close_Unlock1 int | Close_Unlock2 int
  | IO_Lock1 io | IO_Body io | IO_Unlock1 int
  | Destroy_Lock | Destroy_Set | Destroy_Test | Destroy_Wait | Destroy_Woken
  | Destroy_Unlock | Destroy_Free
  | Returned int

text \<open>
  \<open>owner\<close> says which thread has locked a mutex. Unlocking a mutex frees it, whoever locked it
  (what glibc's default mutex does). \<open>failed_close\<close> records that some \<open>tfs_close\<close> took its
  failure branch, and \<open>crashed\<close> that a body accessed memory out of bounds: the process is gone.
  \<open>buffers\<close> holds what the last of a thread's operations of \<^typ>\<open>io\<close> left in its caller's array, for a read.
\<close>

record sys =
  sfs :: fs_state
  destroy_flag :: destroy_call_state_t
  file_count :: int
  owner :: "lock_id \<Rightarrow> nat option"
  pcs :: "nat \<Rightarrow> pc"
  buffers :: "nat \<Rightarrow> string"
  failed_close :: bool
  crashed :: bool

definition goto :: "nat \<Rightarrow> pc \<Rightarrow> sys \<Rightarrow> sys" where
  "goto t p s = s\<lparr>pcs := (pcs s)(t := p)\<rparr>"

definition lock :: "lock_id \<Rightarrow> nat \<Rightarrow> pc \<Rightarrow> sys \<Rightarrow> sys option" where
  "lock l t p s =
     (if owner s l = None then Some (goto t p (s\<lparr>owner := (owner s)(l := Some t)\<rparr>)) else None)"

definition unlock :: "lock_id \<Rightarrow> nat \<Rightarrow> pc \<Rightarrow> sys \<Rightarrow> sys option" where
  "unlock l t p s = Some (goto t p (s\<lparr>owner := (owner s)(l := None)\<rparr>))"

text \<open>\<open>pthread_cond_broadcast(&called_destroy_cond)\<close>: every waiting thread wakes up.\<close>

definition broadcast :: "sys \<Rightarrow> sys" where
  "broadcast s = s\<lparr>pcs := (\<lambda>t. if pcs s t = Destroy_Wait then Destroy_Woken else pcs s t)\<rparr>"

fun io_body :: "io \<Rightarrow> fs_state \<Rightarrow> fault + int \<times> string \<times> fs_state" where
  "io_body (IO_Lookup n) f = Inr (tfs_lookup_unsynchronized n f, [], f)"
| "io_body (IO_Write h b len) f = andthen (tfs_write_unsynchronized h b len f) (\<lambda>(r, g). Inr (r, [], g))"
| "io_body (IO_Read h b len) f = tfs_read_unsynchronized h b len f"

text \<open>\<open>tfs_open\<close>, between the locks (lines 158 to 186).\<close>

definition open_body :: "nat \<Rightarrow> string option \<Rightarrow> int \<Rightarrow> sys \<Rightarrow> sys" where
  "open_body t n flags s =
     (if destroy_flag s = DESTROY then goto t (Open_Unlock2 (-1)) s
      else case tfs_open_unsynchronized n flags (sfs s) of
        Inl _ \<Rightarrow> s\<lparr>crashed := True\<rparr>
      | Inr (r, f) \<Rightarrow> goto t (Open_Unlock2 r)
          (if r = -1 then s\<lparr>sfs := f\<rparr> else s\<lparr>sfs := f, file_count := file_count s + 1\<rparr>))"

text \<open>\<open>tfs_close\<close>: the removal, and the count with its broadcast.\<close>

definition close_body :: "nat \<Rightarrow> int \<Rightarrow> sys \<Rightarrow> sys" where
  "close_body t fh s =
     (let (r, f) = remove_from_open_file_table fh (sfs s) in
      if r = -1 then goto t Close_Fail1 (s\<lparr>sfs := f, failed_close := True\<rparr>)
      else goto t (Close_Count r) (s\<lparr>sfs := f\<rparr>))"

definition close_count :: "nat \<Rightarrow> int \<Rightarrow> sys \<Rightarrow> sys" where
  "close_count t r s =
     (let s1 = s\<lparr>file_count := file_count s - 1\<rparr> in
      goto t (Close_Unlock1 r)
        (if file_count s1 = 0 \<and> destroy_flag s1 = DESTROY then broadcast s1 else s1))"

definition destroy_test :: "nat \<Rightarrow> sys \<Rightarrow> sys" where
  "destroy_test t s =
     (if file_count s \<noteq> 0
      then goto t Destroy_Wait (s\<lparr>owner := (owner s)(Called_Destroy_Mutex := None)\<rparr>)
      else goto t Destroy_Unlock s)"

text \<open>The steps of each operation: \<^const>\<open>None\<close> when the thread has to wait.\<close>

definition open_step :: "nat \<Rightarrow> sys \<Rightarrow> sys option" where
  "open_step t s =
     (case pcs s t of
        Open_Lock1 n f \<Rightarrow> lock Single_Global_Lock t (Open_Lock2 n f) s
      | Open_Lock2 n f \<Rightarrow> lock Called_Destroy_Mutex t (Open_Body n f) s
      | Open_Body n f \<Rightarrow> Some (open_body t n f s)
      | Open_Unlock2 r \<Rightarrow> unlock Called_Destroy_Mutex t (Open_Unlock1 r) s
      | Open_Unlock1 r \<Rightarrow> unlock Single_Global_Lock t (Returned r) s
      | _ \<Rightarrow> None)"

definition close_step :: "nat \<Rightarrow> sys \<Rightarrow> sys option" where
  "close_step t s =
     (case pcs s t of
        Close_Lock1 h \<Rightarrow> lock Single_Global_Lock t (Close_Lock2 h) s
      | Close_Lock2 h \<Rightarrow> lock Called_Destroy_Mutex t (Close_Body h) s
      | Close_Body h \<Rightarrow> Some (close_body t h s)
      | Close_Fail1 \<Rightarrow> unlock Single_Global_Lock t Close_Fail2 s
      | Close_Fail2 \<Rightarrow> unlock Called_Destroy_Mutex t (Close_Count (-1)) s
      | Close_Count r \<Rightarrow> Some (close_count t r s)
      | Close_Unlock1 r \<Rightarrow> unlock Single_Global_Lock t (Close_Unlock2 r) s
      | Close_Unlock2 r \<Rightarrow> unlock Called_Destroy_Mutex t (Returned r) s
      | _ \<Rightarrow> None)"

definition io_step :: "nat \<Rightarrow> sys \<Rightarrow> sys option" where
  "io_step t s =
     (case pcs s t of
        IO_Lock1 c \<Rightarrow> lock Single_Global_Lock t (IO_Body c) s
      | IO_Body c \<Rightarrow> (case io_body c (sfs s) of
            Inl _ \<Rightarrow> Some (s\<lparr>crashed := True\<rparr>)
          | Inr (r, out, f) \<Rightarrow> Some (goto t (IO_Unlock1 r) (s\<lparr>sfs := f, buffers := (buffers s)(t := out)\<rparr>)))
      | IO_Unlock1 r \<Rightarrow> unlock Single_Global_Lock t (Returned r) s
      | _ \<Rightarrow> None)"

definition destroy_step :: "nat \<Rightarrow> sys \<Rightarrow> sys option" where
  "destroy_step t s =
     (case pcs s t of
        Destroy_Lock \<Rightarrow> lock Called_Destroy_Mutex t Destroy_Set s
      | Destroy_Set \<Rightarrow> Some (goto t Destroy_Test (s\<lparr>destroy_flag := DESTROY\<rparr>))
      | Destroy_Test \<Rightarrow> Some (destroy_test t s)
      | Destroy_Wait \<Rightarrow> None
      | Destroy_Woken \<Rightarrow> lock Called_Destroy_Mutex t Destroy_Test s
      | Destroy_Unlock \<Rightarrow> unlock Called_Destroy_Mutex t Destroy_Free s
      | Destroy_Free \<Rightarrow> Some (goto t (Returned 0) (s\<lparr>sfs := state_destroy (sfs s)\<rparr>))
      | _ \<Rightarrow> None)"

text \<open>The next step of thread \<open>t\<close>: \<^const>\<open>None\<close> when it has to wait or has nothing to run.\<close>

definition thread_step :: "nat \<Rightarrow> sys \<Rightarrow> sys option" where
  "thread_step t s =
     (if crashed s then None else
      case pcs s t of
        Idle \<Rightarrow> None
      | Open_Lock1 _ _ \<Rightarrow> open_step t s
      | Open_Lock2 _ _ \<Rightarrow> open_step t s
      | Open_Body _ _ \<Rightarrow> open_step t s
      | Open_Unlock2 _ \<Rightarrow> open_step t s
      | Open_Unlock1 _ \<Rightarrow> open_step t s
      | Close_Lock1 _ \<Rightarrow> close_step t s
      | Close_Lock2 _ \<Rightarrow> close_step t s
      | Close_Body _ \<Rightarrow> close_step t s
      | Close_Fail1 \<Rightarrow> close_step t s
      | Close_Fail2 \<Rightarrow> close_step t s
      | Close_Count _ \<Rightarrow> close_step t s
      | Close_Unlock1 _ \<Rightarrow> close_step t s
      | Close_Unlock2 _ \<Rightarrow> close_step t s
      | IO_Lock1 _ \<Rightarrow> io_step t s
      | IO_Body _ \<Rightarrow> io_step t s
      | IO_Unlock1 _ \<Rightarrow> io_step t s
      | Destroy_Lock \<Rightarrow> destroy_step t s
      | Destroy_Set \<Rightarrow> destroy_step t s
      | Destroy_Test \<Rightarrow> destroy_step t s
      | Destroy_Wait \<Rightarrow> destroy_step t s
      | Destroy_Woken \<Rightarrow> destroy_step t s
      | Destroy_Unlock \<Rightarrow> destroy_step t s
      | Destroy_Free \<Rightarrow> destroy_step t s
      | Returned r \<Rightarrow> Some (goto t Idle s))"

lemma thread_step_eq:
  "thread_step t s =
     (if crashed s then None else
      case pcs s t of
        Idle \<Rightarrow> None
      | Open_Lock1 n f \<Rightarrow> lock Single_Global_Lock t (Open_Lock2 n f) s
      | Open_Lock2 n f \<Rightarrow> lock Called_Destroy_Mutex t (Open_Body n f) s
      | Open_Body n f \<Rightarrow> Some (open_body t n f s)
      | Open_Unlock2 r \<Rightarrow> unlock Called_Destroy_Mutex t (Open_Unlock1 r) s
      | Open_Unlock1 r \<Rightarrow> unlock Single_Global_Lock t (Returned r) s
      | Close_Lock1 h \<Rightarrow> lock Single_Global_Lock t (Close_Lock2 h) s
      | Close_Lock2 h \<Rightarrow> lock Called_Destroy_Mutex t (Close_Body h) s
      | Close_Body h \<Rightarrow> Some (close_body t h s)
      | Close_Fail1 \<Rightarrow> unlock Single_Global_Lock t Close_Fail2 s
      | Close_Fail2 \<Rightarrow> unlock Called_Destroy_Mutex t (Close_Count (-1)) s
      | Close_Count r \<Rightarrow> Some (close_count t r s)
      | Close_Unlock1 r \<Rightarrow> unlock Single_Global_Lock t (Close_Unlock2 r) s
      | Close_Unlock2 r \<Rightarrow> unlock Called_Destroy_Mutex t (Returned r) s
      | IO_Lock1 c \<Rightarrow> lock Single_Global_Lock t (IO_Body c) s
      | IO_Body c \<Rightarrow> (case io_body c (sfs s) of
            Inl _ \<Rightarrow> Some (s\<lparr>crashed := True\<rparr>)
          | Inr (r, out, f) \<Rightarrow> Some (goto t (IO_Unlock1 r) (s\<lparr>sfs := f, buffers := (buffers s)(t := out)\<rparr>)))
      | IO_Unlock1 r \<Rightarrow> unlock Single_Global_Lock t (Returned r) s
      | Destroy_Lock \<Rightarrow> lock Called_Destroy_Mutex t Destroy_Set s
      | Destroy_Set \<Rightarrow> Some (goto t Destroy_Test (s\<lparr>destroy_flag := DESTROY\<rparr>))
      | Destroy_Test \<Rightarrow> Some (destroy_test t s)
      | Destroy_Wait \<Rightarrow> None
      | Destroy_Woken \<Rightarrow> lock Called_Destroy_Mutex t Destroy_Test s
      | Destroy_Unlock \<Rightarrow> unlock Called_Destroy_Mutex t Destroy_Free s
      | Destroy_Free \<Rightarrow> Some (goto t (Returned 0) (s\<lparr>sfs := state_destroy (sfs s)\<rparr>))
      | Returned r \<Rightarrow> Some (goto t Idle s))"
  by (cases "pcs s t") (simp_all add: thread_step_def open_step_def close_step_def io_step_def destroy_step_def)

text \<open>The first program counter of a call.\<close>

datatype call = Call_Open "string option" int | Call_Close int | Call_IO io | Call_Destroy

fun entry_pc :: "call \<Rightarrow> pc" where
  "entry_pc (Call_Open n f) = Open_Lock1 n f"
| "entry_pc (Call_Close h) = Close_Lock1 h"
| "entry_pc (Call_IO c) = IO_Lock1 c"
| "entry_pc Call_Destroy = Destroy_Lock"

inductive sys_step :: "sys \<Rightarrow> sys \<Rightarrow> bool" where
  run: "thread_step t s = Some s' \<Longrightarrow> sys_step s s'"
| call: "pcs s t = Idle \<Longrightarrow> \<not> crashed s \<Longrightarrow> sys_step s (goto t (entry_pc c) s)"
| spurious: "pcs s t = Destroy_Wait \<Longrightarrow> \<not> crashed s \<Longrightarrow> sys_step s (goto t Destroy_Woken s)"

inductive_cases sys_stepE: "sys_step s s'"

lemma sys_step_cases [consumes 1, case_names run call spurious]:
  assumes "sys_step s s'"
  obtains t where "thread_step t s = Some s'"
    | t c where "pcs s t = Idle" and "s' = goto t (entry_pc c) s"
    | t where "pcs s t = Destroy_Wait" and "s' = goto t Destroy_Woken s"
  using assms by (auto elim: sys_stepE)

text \<open>The same as a function: a schedule of steps, calls and spurious wake-ups, run in order.\<close>

datatype event = Run nat | Call nat call | Spurious nat

fun exec :: "event \<Rightarrow> sys \<Rightarrow> sys option" where
  "exec (Run t) s = thread_step t s"
| "exec (Call t c) s = (if pcs s t = Idle \<and> \<not> crashed s then Some (goto t (entry_pc c) s) else None)"
| "exec (Spurious t) s =
     (if pcs s t = Destroy_Wait \<and> \<not> crashed s then Some (goto t Destroy_Woken s) else None)"

fun exec_all :: "event list \<Rightarrow> sys \<Rightarrow> sys option" where
  "exec_all [] s = Some s"
| "exec_all (e # es) s = (case exec e s of None \<Rightarrow> None | Some s' \<Rightarrow> exec_all es s')"

lemma sys_step_exec: "sys_step s s' \<longleftrightarrow> (\<exists>e. exec e s = Some s')"
proof
  assume "sys_step s s'"
  then show "\<exists>e. exec e s = Some s'"
    by (elim sys_stepE) (metis exec.simps)+
next
  assume "\<exists>e. exec e s = Some s'"
  then obtain e where "exec e s = Some s'" ..
  then show "sys_step s s'"
    by (cases e) (auto intro: sys_step.intros split: if_splits)
qed

lemma reaches_exec: "exec_all es u = Some s' \<Longrightarrow> reaches sys_step s u \<Longrightarrow> reaches sys_step s s'"
proof (induction es arbitrary: u)
  case (Cons e es)
  from Cons.prems(1) obtain v where v: "exec e u = Some v" "exec_all es v = Some s'"
    by (auto split: option.splits)
  with Cons.prems(2) have "reaches sys_step s v"
    by (blast intro: reaches_step sys_step_exec [THEN iffD2])
  with Cons.IH v(2) show ?case by blast
qed simp

definition sys_start :: "sys \<Rightarrow> bool" where
  "sys_start s \<longleftrightarrow> destroy_flag s = INIT \<and> file_count s = 0 \<and> open_count (sfs s) = 0
     \<and> (\<forall>l. owner s l = None) \<and> (\<forall>t. pcs s t = Idle) \<and> \<not> failed_close s \<and> \<not> crashed s"

section \<open>The mutexes\<close>

text \<open>The mutexes a thread holds at a program counter, if no close has failed.\<close>

fun holds :: "lock_id \<Rightarrow> pc \<Rightarrow> bool" where
  "holds Single_Global_Lock p = (case p of
     Open_Lock2 _ _ \<Rightarrow> True | Open_Body _ _ \<Rightarrow> True | Open_Unlock2 _ \<Rightarrow> True | Open_Unlock1 _ \<Rightarrow> True
   | Close_Lock2 _ \<Rightarrow> True | Close_Body _ \<Rightarrow> True | Close_Count _ \<Rightarrow> True | Close_Unlock1 _ \<Rightarrow> True
   | IO_Body _ \<Rightarrow> True | IO_Unlock1 _ \<Rightarrow> True | _ \<Rightarrow> False)"
| "holds Called_Destroy_Mutex p = (case p of
     Open_Body _ _ \<Rightarrow> True | Open_Unlock2 _ \<Rightarrow> True | Close_Body _ \<Rightarrow> True | Close_Count _ \<Rightarrow> True
   | Close_Unlock1 _ \<Rightarrow> True | Close_Unlock2 _ \<Rightarrow> True | Destroy_Set \<Rightarrow> True
   | Destroy_Test \<Rightarrow> True | Destroy_Unlock \<Rightarrow> True | _ \<Rightarrow> False)"

definition lock_inv :: "sys \<Rightarrow> bool" where
  "lock_inv s \<longleftrightarrow> (\<forall>l t. owner s l = Some t \<longleftrightarrow> holds l (pcs s t))"

text \<open>Some thread has closed a file that it has not counted yet.\<close>

fun counting :: "pc \<Rightarrow> bool" where
  "counting (Close_Count _) = True"
| "counting _ = False"

definition count_inv :: "sys \<Rightarrow> bool" where
  "count_inv s \<longleftrightarrow>
     file_count s = int (open_count (sfs s)) + (if \<exists>t. counting (pcs s t) then 1 else 0)"

text \<open>What a program counter inside \<open>tfs_destroy_after_all_closed\<close> says of the shared state.\<close>

definition pc_inv :: "sys \<Rightarrow> pc \<Rightarrow> bool" where
  "pc_inv s p = (case p of
     Destroy_Test \<Rightarrow> destroy_flag s = DESTROY
   | Destroy_Woken \<Rightarrow> destroy_flag s = DESTROY
   | Destroy_Wait \<Rightarrow> destroy_flag s = DESTROY \<and> file_count s \<noteq> 0
   | Destroy_Unlock \<Rightarrow> destroy_flag s = DESTROY \<and> file_count s = 0
   | Destroy_Free \<Rightarrow> destroy_flag s = DESTROY \<and> file_count s = 0
   | Close_Fail1 \<Rightarrow> False
   | Close_Fail2 \<Rightarrow> False
   | _ \<Rightarrow> True)"

definition sys_inv :: "sys \<Rightarrow> bool" where
  "sys_inv s \<longleftrightarrow> failed_close s \<or> (lock_inv s \<and> count_inv s \<and> (\<forall>t. pc_inv s (pcs s t)))"

lemma goto_simps [simp]:
  "pcs (goto t p s) u = (if u = t then p else pcs s u)" "sfs (goto t p s) = sfs s"
  "destroy_flag (goto t p s) = destroy_flag s" "file_count (goto t p s) = file_count s"
  "owner (goto t p s) = owner s" "failed_close (goto t p s) = failed_close s"
  "crashed (goto t p s) = crashed s" "buffers (goto t p s) = buffers s"
  by (simp_all add: goto_def)

lemma broadcast_simps [simp]:
  "pcs (broadcast s) u = (if pcs s u = Destroy_Wait then Destroy_Woken else pcs s u)"
  "sfs (broadcast s) = sfs s" "destroy_flag (broadcast s) = destroy_flag s"
  "file_count (broadcast s) = file_count s" "owner (broadcast s) = owner s"
  "failed_close (broadcast s) = failed_close s" "crashed (broadcast s) = crashed s"
  by (simp_all add: broadcast_def)

lemma lock_eq_Some:
  "lock l t p s = Some s' \<longleftrightarrow> owner s l = None \<and> s' = goto t p (s\<lparr>owner := (owner s)(l := Some t)\<rparr>)"
  by (auto simp: lock_def)

lemma unlock_eq_Some:
  "unlock l t p s = Some s' \<longleftrightarrow> s' = goto t p (s\<lparr>owner := (owner s)(l := None)\<rparr>)"
  by (auto simp: unlock_def)

text \<open>Statements about both mutexes, one at a time.\<close>

abbreviation (input) both_locks :: "lock_id set" where
  "both_locks \<equiv> {Single_Global_Lock, Called_Destroy_Mutex}"

lemma in_both_locks: "l \<in> both_locks"
  by (cases l) auto

lemma lock_inv_goto:
  assumes "lock_inv s" and "\<forall>l\<in>both_locks. holds l p = holds l (pcs s t)" and "owner s' = owner s"
    and "\<forall>u. pcs s' u = pcs s u \<or> (pcs s u = Destroy_Wait \<and> pcs s' u = Destroy_Woken)"
  shows "lock_inv (goto t p s')"
proof -
  have "holds l (pcs s' u) = holds l (pcs s u)" for l u
    using assms(4) by (cases "pcs s' u = pcs s u"; cases l) auto
  with assms(1-3) in_both_locks show ?thesis
    unfolding lock_inv_def by (auto simp del: holds.simps) metis+
qed

lemma lock_inv_lock:
  assumes "lock_inv s" and "owner s l = None" and "\<forall>l'\<in>both_locks. holds l' p = (l' = l \<or> holds l' (pcs s t))"
  shows "lock_inv (goto t p (s\<lparr>owner := (owner s)(l := Some t)\<rparr>))"
  using assms in_both_locks unfolding lock_inv_def
  by (auto simp del: holds.simps) (metis option.distinct(1))+

lemma lock_inv_unlock:
  assumes "lock_inv s" and "holds l (pcs s t)"
    and "\<forall>l'\<in>both_locks. holds l' p = (l' \<noteq> l \<and> holds l' (pcs s t))"
  shows "lock_inv (goto t p (s\<lparr>owner := (owner s)(l := None)\<rparr>))"
  using assms in_both_locks unfolding lock_inv_def
  by (auto simp del: holds.simps) (metis option.inject)+

lemma lock_inv_crash: "lock_inv s \<Longrightarrow> lock_inv (s\<lparr>crashed := True\<rparr>)"
  by (simp add: lock_inv_def)

text \<open>Two threads never hold the same mutex.\<close>

lemma holds_unique: "lock_inv s \<Longrightarrow> holds l (pcs s t) \<Longrightarrow> holds l (pcs s u) \<Longrightarrow> t = u"
  unfolding lock_inv_def by (metis option.inject)

lemma counting_holds: "counting p \<Longrightarrow> holds l p"
  by (cases p; cases l) auto

lemma step_lock_inv:
  assumes inv: "lock_inv s" "\<forall>t. pc_inv s (pcs s t)" and "thread_step t s = Some s'"
    and "\<not> failed_close s'"
  shows "lock_inv s'"
proof -
  note inv_t = inv(2) [THEN spec, of t]
  show ?thesis
    using assms(3,4) inv_t
    by (cases "pcs s t")
      (auto simp: thread_step_eq lock_eq_Some unlock_eq_Some open_body_def close_body_def
        close_count_def destroy_test_def pc_inv_def Let_def
        remove_from_open_file_table_def
        split: if_splits sum.splits prod.splits
        intro!: lock_inv_goto [OF inv(1)] lock_inv_lock [OF inv(1)] lock_inv_unlock [OF inv(1)]
          lock_inv_crash [OF inv(1)])
qed

section \<open>The count of open files under concurrency\<close>

lemma open_count_cong:
  "free_open_file_entries t = free_open_file_entries s \<Longrightarrow> open_count t = open_count s"
  by (simp add: open_count_def open_handle_def)

lemma attach_open_count:
  assumes "add_to_open_file_table i off s = (r, t)"
  shows "open_count t = (if r = -1 then open_count s else Suc (open_count s))"
proof (cases "first_index (\<lambda>i. free_open_file_entries s i = FREE) 0 MAX_OPEN_FILES")
  case (Some h)
  with assms have t: "r = int h" "{h. open_handle t h} = insert h {h. open_handle s h}"
      "h \<notin> {h. open_handle s h}"
    by (auto simp: add_to_open_file_table_def open_handle_def first_index_eq_Some)
  then show ?thesis by (simp add: open_count_def)
qed (use assms in \<open>auto simp: add_to_open_file_table_def\<close>)

lemma truncate_entries:
  "free_open_file_entries (snd (truncate_inode i s)) = free_open_file_entries s"
  by (auto simp: truncate_inode_def data_block_free_def inode_update_def Let_def)

lemma inode_create_entries:
  "free_open_file_entries (snd (inode_create T_FILE s)) = free_open_file_entries s"
  by (simp add: inode_create_def inode_update_def Let_def split: option.split)

lemma inode_delete_entries:
  "free_open_file_entries (snd (inode_delete i s)) = free_open_file_entries s"
  by (auto simp: inode_delete_def data_block_free_def Let_def)

lemma add_dir_entry_entries:
  "free_open_file_entries (snd (add_dir_entry i j n s)) = free_open_file_entries s"
  by (simp add: add_dir_entry_def split: option.split)

lemma open_open_count:
  assumes "tfs_open_unsynchronized n flags s = Inr (r, t)"
  shows "open_count t = (if r = -1 then open_count s else Suc (open_count s))"
proof (cases "tfs_lookup_unsynchronized n s \<ge> 0")
  case True
  let ?ok = "if flags AND TFS_O_TRUNC \<noteq> 0 then truncate_inode (the (inode_get (tfs_lookup_unsynchronized n s))) s
    else (True, s)"
  have keep: "open_count (snd ?ok) = open_count s"
    by (rule open_count_cong) (simp add: truncate_entries)
  obtain ok s1 where ok: "?ok = (ok, s1)" by (cases ?ok)
  with keep have "open_count s1 = open_count s" by simp
  with assms True ok show ?thesis
    by (auto simp: tfs_open_unsynchronized_def Let_def attach_open_count split: option.splits if_splits prod.splits)
next
  case False
  obtain i s1 where s1: "inode_create T_FILE s = (i, s1)" by (cases "inode_create T_FILE s")
  have 1: "open_count s1 = open_count s"
    using inode_create_entries [of s] s1 by (intro open_count_cong) simp
  have 2: "open_count s2 = open_count s" if "add_dir_entry ROOT_DIR_INUM i m s1 = (q, s2)" for q m s2
    using add_dir_entry_entries [of ROOT_DIR_INUM i m s1] that 1 open_count_cong [of s2 s1] by simp
  have 3: "open_count (snd (inode_delete i s2)) = open_count s2" for s2
    by (rule open_count_cong) (rule inode_delete_entries)
  show ?thesis
  proof (cases "flags AND TFS_O_CREAT \<noteq> 0 \<and> i \<noteq> -1")
    case True
    with assms False s1 obtain m where "(let (q, s2) = add_dir_entry ROOT_DIR_INUM i m s1 in
        if q = -1 then Inr (-1, snd (inode_delete i s2)) else Inr (add_to_open_file_table i 0 s2))
        = (Inr (r, t) :: fault + int \<times> fs_state)"
      by (auto simp: tfs_open_unsynchronized_def Let_def andthen_eq_Inr)
    then show ?thesis
      using 2 [of m] 3 by (auto simp: Let_def attach_open_count split: prod.splits if_splits)
  next
    case no: False
    with assms False s1 1 show ?thesis
      by (auto simp: tfs_open_unsynchronized_def split: if_splits)
  qed
qed

lemma io_open_count:
  assumes "io_body c s = Inr (r, b, t)"
  shows "open_count t = open_count s"
proof (rule open_count_cong)
  have alloc: "free_open_file_entries (alloc_if_empty i s) = free_open_file_entries s" for i
    by (simp add: alloc_if_empty_def data_block_alloc_def inode_update_def split: option.split)
  show "free_open_file_entries t = free_open_file_entries s"
  proof (cases c)
    case (IO_Write h b len)
    with assms show ?thesis
      by (auto simp: tfs_write_unsynchronized_def Let_def alloc set_offset_def inode_update_def
          split: option.splits if_splits)
  next
    case (IO_Read h b len)
    with assms show ?thesis
      by (auto simp: tfs_read_unsynchronized_def Let_def set_offset_def andthen_eq_Inr
          split: option.splits if_splits)
  qed (use assms in auto)
qed

lemma remove_open_count:
  assumes "remove_from_open_file_table fh s = (r, t)" and "r \<noteq> -1"
  shows "open_count s = Suc (open_count t)"
proof -
  from assms have "open_handle s (nat fh)" and "t = closed (nat fh) s"
    by (auto simp: remove_from_open_file_table_def open_handle_def valid_file_handle_def closed_def
        split: if_splits)
  then show ?thesis by (simp add: open_count_closed)
qed

definition some_counting :: "sys \<Rightarrow> bool" where
  "some_counting s \<longleftrightarrow> (\<exists>t. counting (pcs s t))"

lemma some_counting_goto:
  assumes "counting p = counting (pcs s t)"
    and "\<forall>u. pcs s' u = pcs s u \<or> (pcs s u = Destroy_Wait \<and> pcs s' u = Destroy_Woken)"
  shows "some_counting (goto t p s') = some_counting s"
proof -
  have "counting (pcs s' u) = counting (pcs s u)" for u
    using assms(2) by (cases "pcs s' u = pcs s u") auto
  with assms(1) show ?thesis unfolding some_counting_def by (metis goto_simps(1))
qed

lemma some_counting_crash: "some_counting (s\<lparr>crashed := True\<rparr>) = some_counting s"
  by (simp add: some_counting_def)

lemma some_counting_step:
  assumes "thread_step t s = Some s'" and "\<not> counting (pcs s t)" and "\<not> counting (pcs s' t)"
  shows "some_counting s' = some_counting s"
  using assms
  by (cases "pcs s t")
    (auto simp: thread_step_eq lock_eq_Some unlock_eq_Some open_body_def close_body_def
      destroy_test_def Let_def some_counting_crash some_counting_goto [where s = s]
      split: if_splits sum.splits prod.splits)

text \<open>While a thread holds both mutexes only that thread can be counting.\<close>

lemma some_counting_unique:
  assumes "lock_inv s" and "holds l (pcs s t)"
  shows "some_counting s = counting (pcs s t)"
  using holds_unique [OF assms] counting_holds unfolding some_counting_def by blast

lemma step_count_inv:
  assumes inv: "lock_inv s" "count_inv s" "\<forall>t. pc_inv s (pcs s t)"
    and run: "thread_step t s = Some s'" and ok: "\<not> failed_close s'"
  shows "count_inv s'"
proof -
  have locks: "lock_inv s'" by (rule step_lock_inv [OF inv(1,3) run ok])
  have count: "count_inv u \<longleftrightarrow> file_count u = int (open_count (sfs u)) + of_bool (some_counting u)" for u
    by (simp add: count_inv_def some_counting_def)
  note same = some_counting_step [OF run]
  show ?thesis
  proof (cases "pcs s t")
    case (Open_Body n f)
    with run have "\<not> counting (pcs s' t)"
      by (auto simp: thread_step_eq open_body_def split: if_splits sum.splits prod.splits)
    with Open_Body same have "some_counting s' = some_counting s" by simp
    with Open_Body run inv(2) show ?thesis
      by (auto simp: thread_step_eq open_body_def count open_open_count
          split: if_splits sum.splits prod.splits)
  next
    case (Close_Body h)
    then have none: "\<not> some_counting s"
      using some_counting_unique [OF inv(1), of Single_Global_Lock t] by simp
    obtain r f where rf: "remove_from_open_file_table h (sfs s) = (r, f)" by fastforce
    with Close_Body run ok have s': "r \<noteq> -1" "s' = goto t (Close_Count r) (s\<lparr>sfs := f\<rparr>)"
      by (auto simp: thread_step_eq close_body_def split: if_splits)
    then have "some_counting s'" by (auto simp: some_counting_def)
    with s' remove_open_count [OF rf s'(1)] inv(2) none show ?thesis by (simp add: count)
  next
    case (Close_Count r)
    with run obtain u where s': "s' = goto t (Close_Unlock1 r) u" "file_count s' = file_count s - 1"
        "sfs s' = sfs s"
      by (auto simp: thread_step_eq close_count_def Let_def split: if_splits)
    have "some_counting s"
      using Close_Count unfolding some_counting_def by (metis counting.simps(1))
    moreover have "\<not> some_counting s'"
      using some_counting_unique [OF locks, of Single_Global_Lock t] s'(1) by simp
    ultimately show ?thesis using s' inv(2) by (simp add: count)
  next
    case (IO_Body c)
    with run have "\<not> counting (pcs s' t)"
      by (auto simp: thread_step_eq split: if_splits sum.splits prod.splits)
    with IO_Body same have "some_counting s' = some_counting s" by simp
    with IO_Body run inv(2) show ?thesis
      by (auto simp: thread_step_eq count io_open_count split: if_splits sum.splits prod.splits)
  qed (use run inv(2) same inv(3) [THEN spec, of t] in
    \<open>auto simp: thread_step_eq lock_eq_Some unlock_eq_Some destroy_test_def count state_destroy_def
      Let_def pc_inv_def split: if_splits\<close>)
qed

text \<open>What a step of \<open>t\<close> does to the others.\<close>

lemma step_others:
  assumes "thread_step t s = Some s'"
  shows "destroy_flag s = DESTROY \<Longrightarrow> destroy_flag s' = DESTROY"
    and "u \<noteq> t \<Longrightarrow> pcs s' u = pcs s u \<or> (pcs s u = Destroy_Wait \<and> pcs s' u = Destroy_Woken)"
    and "destroy_flag s = DESTROY \<Longrightarrow> file_count s' \<noteq> file_count s \<Longrightarrow>
      counting (pcs s t) \<and> (file_count s' = 0 \<longrightarrow> u \<noteq> t \<longrightarrow> pcs s' u \<noteq> Destroy_Wait)"
  using assms
  by (cases "pcs s t"; auto simp: thread_step_eq lock_eq_Some unlock_eq_Some open_body_def
      close_body_def close_count_def destroy_test_def Let_def
      split: if_splits sum.splits prod.splits)+

lemma step_pc_inv_self:
  assumes "pc_inv s (pcs s t)" and "thread_step t s = Some s'" and "\<not> failed_close s'"
  shows "pc_inv s' (pcs s' t)"
  using assms
  by (cases "pcs s t")
    (auto simp: thread_step_eq lock_eq_Some unlock_eq_Some open_body_def close_body_def
      close_count_def destroy_test_def pc_inv_def Let_def
      split: if_splits sum.splits prod.splits)

lemma pc_inv_other:
  assumes "pc_inv s p" and "destroy_flag s = DESTROY \<Longrightarrow> destroy_flag s' = DESTROY"
    and "p = Destroy_Wait \<Longrightarrow> file_count s' \<noteq> 0 \<or> p' = Destroy_Woken"
    and "p = Destroy_Unlock \<or> p = Destroy_Free \<Longrightarrow> file_count s' = 0"
    and "p' = p \<or> (p = Destroy_Wait \<and> p' = Destroy_Woken)"
  shows "pc_inv s' p'"
  using assms by (cases p) (auto simp: pc_inv_def)

lemma step_pc_inv:
  assumes inv: "lock_inv s" "count_inv s" "\<forall>t. pc_inv s (pcs s t)"
    and run: "thread_step t s = Some s'" and ok: "\<not> failed_close s'"
  shows "pc_inv s' (pcs s' u)"
proof (cases "u = t")
  case True
  with step_pc_inv_self [OF _ run ok] inv(3) show ?thesis by simp
next
  case False
  have pos: "file_count s \<noteq> 0" if "counting (pcs s t)"
    using inv(2) that by (auto simp: count_inv_def)
  have flag: "destroy_flag s = DESTROY"
    if "pcs s u \<in> {Destroy_Wait, Destroy_Unlock, Destroy_Free}"
    using inv(3) [THEN spec, of u] that by (auto simp: pc_inv_def)
  note others = step_others [OF run]
  show ?thesis
  proof (rule pc_inv_other)
    show "pc_inv s (pcs s u)" using inv(3) by blast
    show "pcs s' u = pcs s u \<or> (pcs s u = Destroy_Wait \<and> pcs s' u = Destroy_Woken)"
      by (rule others(2) [OF False])
    show "file_count s' \<noteq> 0 \<or> pcs s' u = Destroy_Woken" if w: "pcs s u = Destroy_Wait"
    proof -
      have "file_count s \<noteq> 0" using inv(3) [THEN spec, of u] w by (simp add: pc_inv_def)
      with others(2) [OF False] others(3) [OF flag, of u] w False show ?thesis by auto
    qed
    show "file_count s' = 0" if d: "pcs s u = Destroy_Unlock \<or> pcs s u = Destroy_Free"
    proof -
      have "file_count s = 0" using inv(3) [THEN spec, of u] d by (auto simp: pc_inv_def)
      with others(3) [OF flag] pos d show ?thesis by auto
    qed
  qed (rule others(1))
qed

section \<open>The invariant of all runs\<close>

lemma failed_close_step: "thread_step t s = Some s' \<Longrightarrow> failed_close s \<Longrightarrow> failed_close s'"
  by (cases "pcs s t")
    (auto simp: thread_step_eq lock_eq_Some unlock_eq_Some open_body_def close_body_def
      close_count_def destroy_test_def Let_def split: if_splits sum.splits prod.splits)

text \<open>A call, or a spurious wake-up.\<close>

lemma sys_inv_move:
  assumes "sys_inv s" and "\<forall>l\<in>both_locks. holds l p = holds l (pcs s t)"
    and "counting p = counting (pcs s t)" and "pc_inv s (pcs s t) \<Longrightarrow> pc_inv s p"
  shows "sys_inv (goto t p s)"
proof (cases "failed_close s")
  case False
  with assms(1) have inv: "lock_inv s" "count_inv s" "\<forall>t. pc_inv s (pcs s t)"
    by (simp_all add: sys_inv_def)
  have "count_inv (goto t p s)"
    using inv(2) some_counting_goto [OF assms(3), of s] by (simp add: count_inv_def some_counting_def)
  moreover have "pc_inv (goto t p s) q = pc_inv s q" for q
    by (simp add: pc_inv_def split: pc.split)
  ultimately show ?thesis
    using lock_inv_goto [OF inv(1) assms(2), of s] inv(3) assms(4) by (simp add: sys_inv_def)
qed (simp add: sys_inv_def)

interpretation threads: step_invariant sys_step sys_start sys_inv
proof
  fix s assume "sys_start s"
  moreover have "\<not> holds l Idle" for l by (cases l) simp_all
  ultimately show "sys_inv s"
    by (simp add: sys_start_def sys_inv_def lock_inv_def count_inv_def pc_inv_def)
next
  fix s s' assume inv: "sys_inv s" and "sys_step s s'"
  from this(2) show "sys_inv s'"
  proof (cases rule: sys_step_cases)
    case (run t)
    show ?thesis
    proof (cases "failed_close s'")
      case False
      with failed_close_step [OF run] inv have "lock_inv s" "count_inv s" "\<forall>t. pc_inv s (pcs s t)"
        by (auto simp: sys_inv_def)
      with step_lock_inv [OF _ _ run False] step_count_inv [OF _ _ _ run False]
        step_pc_inv [OF _ _ _ run False]
      show ?thesis by (simp add: sys_inv_def)
    qed (simp add: sys_inv_def)
  next
    case (call t c)
    show ?thesis unfolding call(2)
      by (rule sys_inv_move [OF inv]; cases c) (simp_all add: call pc_inv_def)
  next
    case (spurious t)
    show ?thesis unfolding spurious(2)
      by (rule sys_inv_move [OF inv]) (simp_all add: spurious pc_inv_def)
  qed
qed

lemma reachable_inv:
  assumes "sys_start s" and "reaches sys_step s s'" and "\<not> failed_close s'"
  shows "lock_inv s'" and "count_inv s'" and "\<forall>t. pc_inv s' (pcs s' t)"
  using threads.inv_reachable [OF assms(1,2)] assms(3) by (simp_all add: sys_inv_def)

section \<open>After the last close\<close>

text \<open>The file system is shut down: no file is open, and none will be opened.\<close>

definition shut_down :: "sys \<Rightarrow> bool" where
  "shut_down s \<longleftrightarrow> sys_inv s \<and> (failed_close s \<or> destroy_flag s = DESTROY \<and> file_count s = 0)"

lemma shut_down_step:
  assumes "shut_down s" and "thread_step t s = Some s'" and "\<not> failed_close s'"
  shows "destroy_flag s' = DESTROY" and "file_count s' = 0"
proof -
  have s: "destroy_flag s = DESTROY" "file_count s = 0" "count_inv s"
    using assms failed_close_step [OF assms(2)] by (auto simp: shut_down_def sys_inv_def)
  then have "\<not> counting (pcs s t)" by (auto simp: count_inv_def split: if_splits)
  with assms(2) s show "destroy_flag s' = DESTROY" "file_count s' = 0"
    by (cases "pcs s t";
      auto simp: thread_step_eq lock_eq_Some unlock_eq_Some open_body_def close_body_def
        destroy_test_def Let_def split: if_splits sum.splits prod.splits)+
qed

interpretation down: step_invariant sys_step shut_down shut_down
proof
  fix s s' assume down: "shut_down s" and step: "sys_step s s'"
  then have inv: "sys_inv s'" using threads.inv_step by (auto simp: shut_down_def)
  from step show "shut_down s'"
  proof (cases rule: sys_step_cases)
    case (run t)
    with shut_down_step [OF down run] inv show ?thesis by (auto simp: shut_down_def)
  qed (use down inv in \<open>auto simp: shut_down_def\<close>)
qed simp

text \<open>A thread past the wait in \<open>tfs_destroy_after_all_closed\<close> witnesses the shutdown.\<close>

lemma shut_down_witness:
  "sys_inv s \<Longrightarrow> pcs s t = Destroy_Unlock \<or> pcs s t = Destroy_Free \<Longrightarrow> shut_down s"
  unfolding shut_down_def sys_inv_def pc_inv_def by (auto dest!: spec [of _ t])

lemma shut_down_closed:
  assumes "shut_down s" and "\<not> failed_close s"
  shows "\<not> open_handle (sfs s) h"
proof -
  have "open_count (sfs s) = 0"
    using assms by (auto simp: shut_down_def sys_inv_def count_inv_def split: if_splits)
  then show ?thesis unfolding open_count_def by simp
qed

section \<open>Progress\<close>

text \<open>
  The mutexes are taken in one order, so some thread can run whenever one is inside an
  operation and not waiting for the last close.
\<close>

fun blocked_on :: "pc \<Rightarrow> lock_id option" where
  "blocked_on (Open_Lock1 _ _) = Some Single_Global_Lock"
| "blocked_on (Close_Lock1 _) = Some Single_Global_Lock"
| "blocked_on (IO_Lock1 _) = Some Single_Global_Lock"
| "blocked_on (Open_Lock2 _ _) = Some Called_Destroy_Mutex"
| "blocked_on (Close_Lock2 _) = Some Called_Destroy_Mutex"
| "blocked_on Destroy_Lock = Some Called_Destroy_Mutex"
| "blocked_on Destroy_Woken = Some Called_Destroy_Mutex"
| "blocked_on _ = None"

lemma can_step:
  assumes "\<not> crashed s" and "pcs s t \<noteq> Idle" and "pcs s t \<noteq> Destroy_Wait"
    and "\<forall>l. blocked_on (pcs s t) = Some l \<longrightarrow> owner s l = None"
  shows "\<exists>s'. thread_step t s = Some s'"
  using assms
  by (cases "pcs s t") (auto simp: thread_step_eq lock_def unlock_def split: sum.split)

lemma some_can_step:
  assumes inv: "lock_inv s" and ok: "\<not> crashed s"
    and t: "pcs s t \<noteq> Idle" "pcs s t \<noteq> Destroy_Wait"
  shows "\<exists>u s'. thread_step u s = Some s'"
proof (cases "owner s Called_Destroy_Mutex")
  case (Some u)
  with inv have "holds Called_Destroy_Mutex (pcs s u)" by (simp add: lock_inv_def del: holds.simps)
  then have "blocked_on (pcs s u) = None" "pcs s u \<noteq> Idle" "pcs s u \<noteq> Destroy_Wait"
    by (auto split: pc.splits)
  with can_step [OF ok, of u] show ?thesis by auto
next
  case free: None
  show ?thesis
  proof (cases "owner s Single_Global_Lock")
    case (Some u)
    with inv have "holds Single_Global_Lock (pcs s u)" by (simp add: lock_inv_def del: holds.simps)
    then have "blocked_on (pcs s u) \<noteq> Some Single_Global_Lock" "pcs s u \<noteq> Idle"
      "pcs s u \<noteq> Destroy_Wait"
      by (auto split: pc.splits)
    with can_step [OF ok, of u] free show ?thesis by (metis lock_id.exhaust)
  next
    case None
    with can_step [OF ok t] free show ?thesis by (metis lock_id.exhaust)
  qed
qed

end
