(* ===== verification/FS_Examples.thy ===== *)
theory FS_Examples
  imports FS_Shutdown
begin

text \<open>
  Concrete states for the instances below: the file system after \<open>tfs_init\<close>, and after the
  creation of one file.
\<close>

definition boot :: ops_state where
  "boot = snd (tfs_init static_ops)"

definition after :: "fault + 'r \<times> ops_state \<Rightarrow> ops_state" where
  "after r = (case r of Inr (_, t) \<Rightarrow> t | Inl _ \<Rightarrow> static_ops)"

definition boot_f :: ops_state where
  "boot_f = after (tfs_open (Some ''/f'') 1 boot)"

lemma static_quiet: "quiet static_ops" "stray_unlocks static_ops = 0"
  by (simp_all add: quiet_def static_ops_def)

lemma boot_inv: "ops_inv boot" "called_destroy boot = INIT" "\<not> open_handle (fs boot) h"
  using tfs_init_inv [OF static_quiet] by (simp_all add: boot_def)

lemma boot_quiet: "quiet boot"
  using boot_inv(1) by (simp add: ops_inv_def)

lemma boot_fs_inv: "fs_inv (fs boot)" "offsets_inv (fs boot)"
  using boot_inv(1) by (simp_all add: ops_inv_def)

lemma boot_fs: "fs boot = snd (inode_create T_DIRECTORY (state_init static_state))"
  using create_root(1) [of static_state]
  by (auto simp: boot_def tfs_init_def static_ops_def Let_def split: prod.splits)

lemma boot_files: "abs_files (fs boot) = Map.empty"
proof (rule ext)
  fix i
  have "entry (fs boot) k = -1 \<or> \<not> k < MAX_DIR_ENTRIES" for k
    unfolding boot_fs by (rule create_root(4))
  then have "\<not> (live (fs boot) i \<and> i \<noteq> 0)"
    using inv_slot [OF boot_fs_inv(1), of i] by force
  then show "abs_files (fs boot) i = Map.empty i" by (simp add: abs_files_def)
qed

lemma boot_find: "find_in_dir ROOT_DIR_INUM n (fs boot) = -1"
proof (cases rule: find_in_root_cases [OF boot_fs_inv(1), of n])
  case (2 i)
  then show ?thesis using fun_cong [OF boot_files, of i] by (simp add: abs_files_def split: if_splits)
qed

lemma boot_names: "abs_names (fs boot) = Map.empty"
  by (simp add: fun_eq_iff abs_names_def boot_find)

lemma boot_lookup: "tfs_lookup p boot = Inr (-1, boot)"
  by (simp add: tfs_lookup_quiet [OF boot_quiet] tfs_lookup_unsynchronized_def boot_find)

lemma boot_abs: "abs_ops boot = \<lparr>names = Map.empty, files = Map.empty, fds = Map.empty, closing = False\<rparr>"
  by (simp add: abs_ops_def abs_fs_def boot_names boot_files boot_inv abs_fds_def fun_eq_iff)

lemma first_handle: "first_index (\<lambda>h. (Map.empty :: nat \<rightharpoonup> nat \<times> nat) h = None) 0 MAX_OPEN_FILES = Some 0"
  by (simp add: first_index_eq_Some)

lemma path_f: "proper_path ''/f''" "cstr (tl ''/f'') = ''f''"
  by (simp_all add: proper_path_def valid_pathname_def strlen_def char_at_def)

lemma boot_open:
  obtains i where "tfs_open (Some ''/f'') 1 boot = Inr (0, boot_f)" and "ops_inv boot_f"
    and "abs_ops boot_f = \<lparr>names = [''f'' \<mapsto> i], files = [i \<mapsto> []], fds = [0 \<mapsto> (i, 0)], closing = False\<rparr>"
proof -
  have "fs_ok boot (Open ''/f'' 1)" by (simp add: path_f truncate_safe_def)
  from step_open [OF boot_inv(1) this] obtain r t where
    rt: "fs_step boot (Open ''/f'' 1) = Inr (r, t)" "ops_inv t"
      "spec_open ''f'' 1 (abs_ops boot) (fst r) (abs_ops t)"
    by (auto simp: path_f)
  from rt(3) obtain i where i: "(fst r, abs_ops t) = spec_attach i 0
      \<lparr>names = [''f'' \<mapsto> i], files = [i \<mapsto> []], fds = Map.empty, closing = False\<rparr>"
    by (auto simp: spec_open_def boot_abs)
  then have t: "fst r = 0" "abs_ops t = \<lparr>names = [''f'' \<mapsto> i], files = [i \<mapsto> []],
      fds = [0 \<mapsto> (i, 0)], closing = False\<rparr>"
    using first_handle by (simp_all add: spec_attach_def)
  with rt(1) have "tfs_open (Some ''/f'') 1 boot = Inr (0, t)"
    by (auto simp: andthen_eq_Inr)
  moreover from this have "boot_f = t" by (simp add: boot_f_def after_def)
  ultimately show thesis using that rt(2) t(2) by metis
qed

lemma boot_f_inv: "ops_inv boot_f" "quiet boot_f" "fs_inv (fs boot_f)" "offsets_inv (fs boot_f)"
  using boot_open by (auto simp: ops_inv_def)

lemma boot_f_handle:
  "open_handle (fs boot_f) 0" "of_offset (open_file_table (fs boot_f) 0) = 0"
  "called_destroy boot_f \<noteq> DESTROY" "abs_files (fs boot_f) (handle_inode (fs boot_f) 0) = Some []"
proof -
  obtain i where abs: "abs_ops boot_f = \<lparr>names = [''f'' \<mapsto> i], files = [i \<mapsto> []],
      fds = [0 \<mapsto> (i, 0)], closing = False\<rparr>"
    by (rule boot_open)
  then have "fds (abs_ops boot_f) 0 = Some (i, 0)" "closing (abs_ops boot_f) = False"
    "files (abs_ops boot_f) = [i \<mapsto> []]" by simp_all
  then show "open_handle (fs boot_f) 0" "of_offset (open_file_table (fs boot_f) 0) = 0"
    "called_destroy boot_f \<noteq> DESTROY" "abs_files (fs boot_f) (handle_inode (fs boot_f) 0) = Some []"
    by (auto simp: abs_ops_def abs_fds_def unat_eq_0 split: if_splits)
qed

lemma boot_f_fds: "open_handle (fs boot_f) h \<longleftrightarrow> h = 0"
proof -
  obtain i where abs: "abs_ops boot_f = \<lparr>names = [''f'' \<mapsto> i], files = [i \<mapsto> []],
      fds = [0 \<mapsto> (i, 0)], closing = False\<rparr>"
    by (rule boot_open)
  have "fds (abs_ops boot_f) h = None \<longleftrightarrow> h \<noteq> 0" by (simp add: abs)
  then show ?thesis by (simp add: abs_ops_def abs_fds_def split: if_splits)
qed

text \<open>A second handle on the same file.\<close>

definition boot_ff :: ops_state where
  "boot_ff = after (tfs_open (Some ''/f'') 0 boot_f)"

lemma boot_f_open:
  obtains i where "tfs_open (Some ''/f'') 0 boot_f = Inr (1, boot_ff)" and "ops_inv boot_ff"
    and "abs_ops boot_ff = \<lparr>names = [''f'' \<mapsto> i], files = [i \<mapsto> []],
      fds = [0 \<mapsto> (i, 0), 1 \<mapsto> (i, 0)], closing = False\<rparr>"
proof -
  obtain i where abs: "abs_ops boot_f = \<lparr>names = [''f'' \<mapsto> i], files = [i \<mapsto> []],
      fds = [0 \<mapsto> (i, 0)], closing = False\<rparr>"
    by (rule boot_open)
  have "fs_ok boot_f (Open ''/f'' 0)" by (simp add: path_f truncate_safe_def)
  from step_open [OF boot_f_inv(1) this] obtain r t where
    rt: "fs_step boot_f (Open ''/f'' 0) = Inr (r, t)" "ops_inv t"
      "spec_open ''f'' 0 (abs_ops boot_f) (fst r) (abs_ops t)"
    by (auto simp: path_f)
  moreover have "first_index (\<lambda>h. [0 \<mapsto> (i, 0 :: nat)] h = None) 0 MAX_OPEN_FILES = Some 1"
    by (simp add: first_index_eq_Some)
  ultimately have t: "fst r = 1" "abs_ops t = \<lparr>names = [''f'' \<mapsto> i], files = [i \<mapsto> []],
      fds = [0 \<mapsto> (i, 0), 1 \<mapsto> (i, 0)], closing = False\<rparr>"
    by (auto simp: spec_open_def abs spec_attach_def)
  with rt(1) have "tfs_open (Some ''/f'') 0 boot_f = Inr (1, t)"
    by (auto simp: andthen_eq_Inr)
  moreover from this have "boot_ff = t" by (simp add: boot_ff_def after_def)
  ultimately show thesis using that rt(2) t(2) by metis
qed

lemma boot_ff_handles:
  "ops_inv boot_ff" "open_handle (fs boot_ff) 0" "open_handle (fs boot_ff) 1"
  "handle_inode (fs boot_ff) 1 = handle_inode (fs boot_ff) 0"
  "of_offset (open_file_table (fs boot_ff) 1) = of_offset (open_file_table (fs boot_ff) 0)"
  "of_offset (open_file_table (fs boot_ff) 0) = 0"
proof -
  obtain i where inv: "ops_inv boot_ff" and abs: "abs_ops boot_ff = \<lparr>names = [''f'' \<mapsto> i],
      files = [i \<mapsto> []], fds = [0 \<mapsto> (i, 0), 1 \<mapsto> (i, 0)], closing = False\<rparr>"
    by (rule boot_f_open)
  then have "fds (abs_ops boot_ff) 0 = Some (i, 0)" "fds (abs_ops boot_ff) 1 = Some (i, 0)"
    by simp_all
  with inv show "ops_inv boot_ff" "open_handle (fs boot_ff) 0" "open_handle (fs boot_ff) 1"
    "handle_inode (fs boot_ff) 1 = handle_inode (fs boot_ff) 0"
    "of_offset (open_file_table (fs boot_ff) 1) = of_offset (open_file_table (fs boot_ff) 0)"
    "of_offset (open_file_table (fs boot_ff) 0) = 0"
    by (auto simp: abs_ops_def abs_fds_def unat_eq_0 split: if_splits)
qed

section \<open>Filling the directory and the open file table\<close>

text \<open>Opening a name that is not there, with \<open>TFS_O_CREAT\<close>.\<close>

lemma open_new:
  assumes inv: "ops_inv s" and p: "proper_path p" and up: "called_destroy s \<noteq> DESTROY"
    and new: "abs_names (fs s) (cstr (tl p)) = None" and flags: "flags AND TFS_O_CREAT \<noteq> 0"
    and room: "card (dom (abs_files (fs s))) \<noteq> MAX_DIR_ENTRIES"
  obtains r t i where "tfs_open (Some p) flags s = Inr (r, t)" and "ops_inv t"
    and "abs_files (fs s) i = None" and "(r, abs_ops t) = spec_attach i 0 ((abs_ops s)
      \<lparr>names := (abs_names (fs s))(cstr (tl p) \<mapsto> i), files := (abs_files (fs s))(i \<mapsto> [])\<rparr>)"
proof -
  have fs: "fs_inv (fs s)" using inv by (simp add: ops_inv_def)
  have "tfs_lookup_unsynchronized (Some p) (fs s) = -1"
    using new abs_names_lookup [OF fs p] by (simp split: if_splits)
  with inv_handle(1) [OF fs] have "fs_ok s (Open p flags)"
    by (simp add: p truncate_safe_def)
  from step_open [OF inv this] obtain r t where "tfs_open (Some p) flags s = Inr (r, t)" "ops_inv t"
      "spec_open (cstr (tl p)) flags (abs_ops s) r (abs_ops t)"
    by (auto simp: andthen_eq_Inr)
  with new flags room up that show thesis by (auto simp: spec_open_def abs_ops_def)
qed

lemma close_ops:
  assumes "ops_inv s" and "open_handle (fs s) h"
  obtains t where "tfs_close (int h) s = Inr (0, t)" and "ops_inv t"
    and "abs_ops t = (abs_ops s)\<lparr>fds := (fds (abs_ops s))(h := None)\<rparr>"
proof -
  from step_close [OF assms(1), of h] assms obtain r t where "tfs_close (int h) s = Inr (r, t)"
      "ops_inv t" "spec_close h (abs_ops s) = (r, abs_ops t)"
    by (auto simp: andthen_eq_Inr)
  with assms(2) that show thesis by (auto simp: spec_close_def abs_ops_def abs_fds_def)
qed

definition nth_path :: "nat \<Rightarrow> string" where
  "nth_path n = CHR ''/'' # replicate (Suc n) CHR ''a''"

lemma nth_path:
  assumes "n < 39"
  shows "proper_path (nth_path n)" and "cstr (tl (nth_path n)) = replicate (Suc n) CHR ''a''"
  using assms
  by (auto simp: proper_path_def valid_pathname_def nth_path_def strlen_def char_at_def
      cstr_ident)

lemma n_files:
  "n \<le> 23 \<Longrightarrow> \<exists>s. ops_inv s \<and> called_destroy s \<noteq> DESTROY \<and> abs_fds (fs s) = Map.empty
    \<and> card (dom (abs_files (fs s))) = n
    \<and> dom (abs_names (fs s)) \<subseteq> (\<lambda>k. replicate k CHR ''a'') ` {..n}"
proof (induction n)
  case 0
  show ?case
    using boot_inv by (intro exI [of _ boot])
      (auto simp: boot_files boot_names abs_fds_def fun_eq_iff)
next
  case (Suc n)
  then obtain s where s: "ops_inv s" "called_destroy s \<noteq> DESTROY" "abs_fds (fs s) = Map.empty"
    "card (dom (abs_files (fs s))) = n"
    "dom (abs_names (fs s)) \<subseteq> (\<lambda>k. replicate k CHR ''a'') ` {..n}" by auto
  have n: "n < 39" using Suc.prems by simp
  have "replicate (Suc n) CHR ''a'' \<notin> (\<lambda>k. replicate k CHR ''a'') ` {..n}"
  proof
    assume "replicate (Suc n) CHR ''a'' \<in> (\<lambda>k. replicate k CHR ''a'') ` {..n}"
    then obtain k where "k \<le> n" "replicate (Suc n) CHR ''a'' = replicate k CHR ''a''" by blast
    from arg_cong [OF this(2), of length] this(1) show False by simp
  qed
  with s(5) have new: "abs_names (fs s) (cstr (tl (nth_path n))) = None"
    unfolding nth_path(2) [OF n] by blast
  have room: "card (dom (abs_files (fs s))) \<noteq> MAX_DIR_ENTRIES" using s(4) Suc.prems by simp
  obtain r t i where
    t: "ops_inv t" "abs_files (fs s) i = None" "(r, abs_ops t) = spec_attach i 0 ((abs_ops s)
      \<lparr>names := (abs_names (fs s))(replicate (Suc n) CHR ''a'' \<mapsto> i),
       files := (abs_files (fs s))(i \<mapsto> [])\<rparr>)"
    by (rule open_new [OF s(1) nth_path(1) [OF n] s(2) new _ room, of 1, unfolded nth_path(2) [OF n]])
      (simp, blast)
  then have abs: "abs_ops t = (abs_ops s)\<lparr>names := (abs_names (fs s))(replicate (Suc n) CHR ''a'' \<mapsto> i),
       files := (abs_files (fs s))(i \<mapsto> []), fds := [0 \<mapsto> (i, 0)]\<rparr>"
    using s(3) first_handle by (simp add: spec_attach_def abs_ops_def)
  then have "fds (abs_ops t) 0 = Some (i, 0)" by simp
  then have "open_handle (fs t) 0" by (auto simp: abs_ops_def abs_fds_def split: if_splits)
  from close_ops [OF t(1) this] obtain u where u: "ops_inv u"
    "abs_ops u = (abs_ops t)\<lparr>fds := (fds (abs_ops t))(0 := None)\<rparr>" by blast
  have "finite (dom (abs_files (fs s)))"
    by (rule finite_subset [of _ "{..<INODE_TABLE_SIZE}"])
      (auto simp: abs_files_def live_def split: if_splits)
  moreover have "i \<notin> dom (abs_files (fs s))" using t(2) by (simp add: dom_def)
  moreover have "names (abs_ops u) = (abs_names (fs s))(replicate (Suc n) CHR ''a'' \<mapsto> i)"
    "files (abs_ops u) = (abs_files (fs s))(i \<mapsto> [])" "fds (abs_ops u) = Map.empty"
    "closing (abs_ops u) = closing (abs_ops s)"
    using u(2) abs by simp_all
  ultimately have "dom (abs_names (fs u)) = insert (replicate (Suc n) CHR ''a'') (dom (abs_names (fs s)))"
    "card (dom (abs_files (fs u))) = Suc n" "abs_fds (fs u) = Map.empty" "called_destroy u \<noteq> DESTROY"
    using s(2,4) by (simp_all add: abs_ops_def)
  moreover have "insert (replicate (Suc n) CHR ''a'') (dom (abs_names (fs s)))
      \<subseteq> (\<lambda>k. replicate k CHR ''a'') ` {..Suc n}"
    using s(5) by (auto simp: atMost_Suc)
  ultimately show ?case using u(1) by (intro exI [of _ u]) simp
qed

end
