(* ===== verification/FS_Properties.thy ===== *)
theory FS_Properties
  imports FS_Examples
begin

text \<open>
  The properties of the file system, each with an instance at a concrete state. First what
  the operations do for callers that use them as documented; then the branches on which the
  code does something else.
\<close>

section \<open>Histories of operations\<close>

text \<open>C1: After \<open>tfs_init\<close>, every history of admissible opens, closes, writes and reads
  runs without a memory fault or deadlock, keeps the well-formedness of all tables, and answers
  exactly as the specification (a map from names to files and from handles to offsets) does.\<close>

theorem fs_histories_refine_the_specification:
  assumes "quiet s" and "stray_unlocks s = 0" and "ok_ops fs_step fs_ok (snd (tfs_init s)) xs"
  shows "\<exists>rs t. run_ops fs_step (snd (tfs_init s)) xs = Inr (rs, t) \<and> ops_inv t
    \<and> accepts fs_spec (abs_ops (snd (tfs_init s))) xs rs (abs_ops t)"
  by (rule tfs.history_refines [OF tfs_init_inv(2) [OF assms(1,2)] assms(3)])

lemma boot_f_write:
  obtains t i where "fs_step boot_f (Write 0 ''AAA!'') = Inr ((4, []), t)" and "ops_inv t"
    and "abs_ops t = \<lparr>names = [''f'' \<mapsto> i], files = [i \<mapsto> ''AAA!''], fds = [0 \<mapsto> (i, 4)], closing = False\<rparr>"
proof -
  obtain i where abs: "abs_ops boot_f = \<lparr>names = [''f'' \<mapsto> i], files = [i \<mapsto> []],
      fds = [0 \<mapsto> (i, 0)], closing = False\<rparr>"
    by (rule boot_open)
  from step_write [OF boot_f_inv(1), of 0 "''AAA!''"] boot_f_handle(1) obtain r t
    where rt: "fs_step boot_f (Write 0 ''AAA!'') = Inr (r, t)" "ops_inv t"
      "spec_write 0 ''AAA!'' (abs_ops boot_f) = (fst r, abs_ops t)" "snd r = []"
    by auto
  then show thesis
    by (intro that [of t i]) (simp_all add: prod_eq_iff abs spec_write_def overwrite_def eval_nat_numeral)
qed

lemma boot_run_ok: "ok_ops fs_step fs_ok boot [Open ''/f'' 1, Write 0 ''AAA!'', Close 0]"
proof -
  obtain i where 1: "fs_step boot (Open ''/f'' 1) = Inr ((0, []), boot_f)"
    using boot_open by (metis andthen_Inr fs_step.simps(1) old.prod.case)
  obtain t j where 2: "fs_step boot_f (Write 0 ''AAA!'') = Inr ((4, []), t)"
    and t: "abs_ops t = \<lparr>names = [''f'' \<mapsto> j], files = [j \<mapsto> ''AAA!''], fds = [0 \<mapsto> (j, 4)], closing = False\<rparr>"
    by (rule boot_f_write)
  from arg_cong [OF t, of fds] have "open_handle (fs t) 0"
    by (auto simp: abs_ops_def abs_fds_def fun_eq_iff split: if_splits dest!: spec [of _ 0])
  then show ?thesis
    using 1 2 boot_f_handle(1) by (simp add: path_f truncate_safe_def del: fs_step.simps split: sum.split)
qed

lemma fs_histories_refine_the_specification_witness:
  "\<exists>rs t. run_ops fs_step boot [Open ''/f'' 1, Write 0 ''AAA!'', Close 0] = Inr (rs, t) \<and> ops_inv t
    \<and> accepts fs_spec (abs_ops boot) [Open ''/f'' 1, Write 0 ''AAA!'', Close 0] rs (abs_ops t)"
  using fs_histories_refine_the_specification [OF static_quiet] boot_run_ok
  unfolding boot_def by blast

section \<open>Single operations\<close>

text \<open>C14: A write through an open handle stores as much of the buffer as fits between the
  handle's offset and the end of the 1024-byte block, returns that number, moves the offset by it,
  overwrites exactly that range of the file, and changes no other file, name or handle.\<close>

theorem tfs_write_effect:
  assumes "ops_inv s" and "open_handle (fs s) h" and "length d < 2 ^ 63"
    and "abs_fds (fs s) h = Some (i, off)" and "abs_files (fs s) i = Some c"
    and "n = min (length d) (BLOCK_SIZE - off)"
  shows "\<exists>t. tfs_write (int h) d (of_nat (length d)) s = Inr (int n, t) \<and> ops_inv t
    \<and> abs_ops t = (abs_ops s)\<lparr>files := (abs_files (fs s))(i \<mapsto> overwrite c off (take n d)),
        fds := (abs_fds (fs s))(h \<mapsto> (i, off + n))\<rparr>"
proof -
  from step_write [OF assms(1), of h d] assms(2,3) obtain r t
    where rt: "fs_step s (Write h d) = Inr (r, t)" "ops_inv t"
      "spec_write h d (abs_ops s) = (fst r, abs_ops t)"
    by auto
  with assms(4,5) spec_write_eq [of "abs_ops s" h i off c d n] assms(6)
  show ?thesis by (auto simp: abs_ops_def andthen_eq_Inr)
qed

lemma tfs_write_effect_witness:
  "\<exists>t. tfs_write 0 ''AAA!'' 4 boot_f = Inr (4, t) \<and> ops_inv t"
proof -
  let ?i = "handle_inode (fs boot_f) 0"
  have "abs_fds (fs boot_f) 0 = Some (?i, 0)" using boot_f_handle by (simp add: abs_fds_def)
  with tfs_write_effect [OF boot_f_inv(1) boot_f_handle(1), of "''AAA!''" ?i 0 "[]" 4] boot_f_handle(4)
  show ?thesis by auto
qed

text \<open>C15: A read through an open handle gives the bytes of the file from the handle's
  offset, at most as many as asked for, leaves the rest of the caller's buffer alone, moves the offset
  by their number and changes nothing else.\<close>

theorem tfs_read_effect:
  assumes "ops_inv s" and "open_handle (fs s) h" and "unat len \<le> length buffer"
    and "abs_fds (fs s) h = Some (i, off)" and "abs_files (fs s) i = Some c"
    and "bytes = take (unat len) (drop off c)"
  shows "\<exists>t. tfs_read (int h) buffer len s
      = Inr (int (length bytes), bytes @ drop (length bytes) buffer, t)
    \<and> fs_inv (fs t) \<and> offsets_inv (fs t)
    \<and> abs_ops t = (abs_ops s)\<lparr>fds := (abs_fds (fs s))(h \<mapsto> (i, off + length bytes))\<rparr>"
proof -
  from tfs_read_refines [OF assms(1-3)] spec_read_eq [of "abs_ops s" h i off c bytes "unat len"] assms(4-6)
  show ?thesis by (auto simp: abs_ops_def)
qed

lemma tfs_read_effect_witness:
  "\<exists>t. tfs_read 0 ''0123'' 4 boot_f = Inr (0, ''0123'', t) \<and> fs_inv (fs t)"
proof -
  let ?i = "handle_inode (fs boot_f) 0"
  have "abs_fds (fs boot_f) 0 = Some (?i, 0)" using boot_f_handle by (simp add: abs_fds_def)
  with tfs_read_effect [OF boot_f_inv(1) boot_f_handle(1), of 4 "''0123''" ?i 0 "[]" "[]"] boot_f_handle(4)
  show ?thesis by auto
qed

text \<open>C16: What was written can be read back: after a write of \<open>d\<close> that fits into the
  block, a handle on the same file whose offset is where the write began reads \<open>d\<close>.\<close>

theorem tfs_write_read_roundtrip:
  assumes "ops_inv s" and "open_handle (fs s) h" and "open_handle (fs s) h'" and "h' \<noteq> h"
    and "handle_inode (fs s) h' = handle_inode (fs s) h"
    and "of_offset (open_file_table (fs s) h') = of_offset (open_file_table (fs s) h)"
    and "unat (of_offset (open_file_table (fs s) h)) + length d \<le> BLOCK_SIZE"
  shows "\<exists>t u. tfs_write (int h) d (of_nat (length d)) s = Inr (int (length d), t)
    \<and> tfs_read (int h') (replicate (length d) NUL) (of_nat (length d)) t
      = Inr (int (length d), d, u)"
proof -
  let ?i = "handle_inode (fs s) h" and ?off = "unat (of_offset (open_file_table (fs s) h))"
  have inv: "fs_inv (fs s)" "offset_ok (fs s) h" using assms(1,2) by (auto simp: ops_inv_def offsets_inv_def)
  note i = inv_handle [OF inv(1) assms(2)]
  have c: "?off \<le> length (content (fs s) ?i)"
    using inv(2) by (simp add: offset_ok_def word_le_nat_alt)
  have spec: "spec_write h d (abs_ops s) = (int (length d), (abs_ops s)
      \<lparr>files := (abs_files (fs s))(?i \<mapsto> overwrite (content (fs s) ?i) ?off d),
       fds := (abs_fds (fs s))(h \<mapsto> (?i, ?off + length d))\<rparr>)"
    using spec_write_eq [of "abs_ops s" h ?i ?off "content (fs s) ?i" d "length d"] assms(2,7) i
    by (simp add: abs_ops_def abs_fds_def abs_files_def)
  from step_write [OF assms(1), of h d] assms(2,7) obtain t
    where t: "tfs_write (int h) d (of_nat (length d)) s = Inr (int (length d), t)" "ops_inv t"
      "abs_ops t = (abs_ops s)\<lparr>files := (abs_files (fs s))(?i \<mapsto> overwrite (content (fs s) ?i) ?off d),
        fds := (abs_fds (fs s))(h \<mapsto> (?i, ?off + length d))\<rparr>"
    by (auto simp: spec andthen_eq_Inr)
  have h': "fds (abs_ops t) h' = Some (?i, ?off)" "files (abs_ops t) ?i = Some (overwrite (content (fs s) ?i) ?off d)"
    using assms(3-6) unfolding t(3) by (simp_all add: abs_fds_def)
  then have "open_handle (fs t) h'" by (auto simp: abs_ops_def abs_fds_def split: if_splits)
  from tfs_read_refines [OF t(2) this, of "of_nat (length d)" "replicate (length d) NUL"] assms(7)
  obtain r bs u where
    ru: "tfs_read (int h') (replicate (length d) NUL) (of_nat (length d)) t
        = Inr (r, bs @ drop (length bs) (replicate (length d) NUL), u)"
      "spec_read h' (length d) (abs_ops t) = ((r, bs), abs_ops u)"
    by (auto simp: unat_of_length)
  have "take (length d) (drop ?off (overwrite (content (fs s) ?i) ?off d)) = d"
    using c by (simp add: overwrite_def)
  with ru(2) have "r = int (length d)" "bs = d"
    by (auto simp: spec_read_eq [OF h' refl])
  with ru(1) t(1) show ?thesis by auto
qed

lemma tfs_write_read_roundtrip_witness:
  "\<exists>t u. tfs_write 0 ''AAA!'' 4 boot_ff = Inr (4, t)
    \<and> tfs_read 1 [NUL, NUL, NUL, NUL] 4 t = Inr (4, ''AAA!'', u)"
  using tfs_write_read_roundtrip [OF boot_ff_handles(1-3) _ boot_ff_handles(4,5), of "''AAA!''"]
    boot_ff_handles(6)
  by simp

text \<open>C17: Creating a file: an open with \<open>TFS_O_CREAT\<close> of a path that is not there takes an
  unused i-node, makes the name resolve to it, gives it empty contents and leaves every other name and
  file as it was; the handle it returns is the lowest free one, at offset 0.\<close>

theorem tfs_open_creates:
  assumes "ops_inv s" and "proper_path p" and "called_destroy s \<noteq> DESTROY"
    and "abs_names (fs s) (cstr (tl p)) = None" and "flags AND TFS_O_CREAT \<noteq> 0"
    and "card (dom (abs_files (fs s))) \<noteq> MAX_DIR_ENTRIES"
    and "h < MAX_OPEN_FILES" and "\<not> open_handle (fs s) h" and "\<forall>j<h. open_handle (fs s) j"
  shows "\<exists>t i. tfs_open (Some p) flags s = Inr (int h, t) \<and> ops_inv t
    \<and> tfs_lookup (Some p) t = Inr (int i, t) \<and> abs_files (fs s) i = None
    \<and> abs_names (fs t) = (abs_names (fs s))(cstr (tl p) \<mapsto> i)
    \<and> abs_files (fs t) = (abs_files (fs s))(i \<mapsto> [])
    \<and> abs_fds (fs t) = (abs_fds (fs s))(h \<mapsto> (i, 0))"
proof -
  obtain r t i where t: "tfs_open (Some p) flags s = Inr (r, t)" "ops_inv t" "abs_files (fs s) i = None"
    "(r, abs_ops t) = spec_attach i 0 ((abs_ops s)\<lparr>names := (abs_names (fs s))(cstr (tl p) \<mapsto> i),
       files := (abs_files (fs s))(i \<mapsto> [])\<rparr>)"
    by (rule open_new [OF assms(1-6)])
  have "first_index (\<lambda>j. abs_fds (fs s) j = None) 0 MAX_OPEN_FILES = Some h"
    using assms(7-9) by (simp add: first_index_eq_Some abs_fds_def)
  with t(4) have r: "r = int h" and abs: "names (abs_ops t) = (abs_names (fs s))(cstr (tl p) \<mapsto> i)"
      "files (abs_ops t) = (abs_files (fs s))(i \<mapsto> [])" "fds (abs_ops t) = (abs_fds (fs s))(h \<mapsto> (i, 0))"
    by (simp_all add: spec_attach_def abs_ops_def)
  have inv: "quiet t" "fs_inv (fs t)" using t(2) by (simp_all add: ops_inv_def)
  have "names (abs_ops t) (cstr (tl p)) = Some i" by (simp add: abs)
  then have "tfs_lookup_unsynchronized (Some p) (fs t) \<noteq> -1"
    "nat (tfs_lookup_unsynchronized (Some p) (fs t)) = i"
    by (auto simp: abs_ops_def abs_names_lookup [OF inv(2) assms(2)] split: if_splits)
  then have "tfs_lookup_unsynchronized (Some p) (fs t) = int i"
    by (cases rule: lookup_cases [OF inv(2), of "Some p"]) auto
  with t(1-3) r abs tfs_lookup_quiet [OF inv(1)] show ?thesis by (auto simp: abs_ops_def)
qed

lemma tfs_open_creates_witness:
  "\<exists>t i. tfs_open (Some ''/f'') 1 boot = Inr (0, t) \<and> ops_inv t \<and> tfs_lookup (Some ''/f'') t = Inr (int i, t)"
  using tfs_open_creates [OF boot_inv(1) path_f(1), of 1 0] boot_inv(2,3)
  by (auto simp: boot_names boot_files)

text \<open>C26: With 23 files the root directory is full: an open that would create another one
  answers -1 and leaves the file system as it was, with no i-node lost.\<close>

theorem tfs_open_directory_full:
  assumes "ops_inv s" and "proper_path p" and "abs_names (fs s) (cstr (tl p)) = None"
    and "card (dom (abs_files (fs s))) = MAX_DIR_ENTRIES"
  shows "\<exists>t. tfs_open (Some p) flags s = Inr (-1, t) \<and> ops_inv t \<and> abs_ops t = abs_ops s"
proof -
  have inv: "fs_inv (fs s)" using assms(1) by (simp add: ops_inv_def)
  have "tfs_lookup_unsynchronized (Some p) (fs s) = -1"
    using assms(3) abs_names_lookup [OF inv assms(2)] by (simp split: if_splits)
  with inv_handle(1) [OF inv] have "fs_ok s (Open p flags)"
    by (simp add: assms(2) truncate_safe_def)
  from step_open [OF assms(1) this] assms(3,4) show ?thesis
    by (auto simp: spec_open_def abs_ops_def andthen_eq_Inr split: if_splits)
qed

lemma tfs_open_directory_full_witness:
  "\<exists>s t. ops_inv s \<and> tfs_open (Some (nth_path 30)) 1 s = Inr (-1, t) \<and> abs_ops t = abs_ops s"
proof -
  obtain s where s: "ops_inv s" "card (dom (abs_files (fs s))) = 23"
    "dom (abs_names (fs s)) \<subseteq> (\<lambda>k. replicate k CHR ''a'') ` {..23}"
    using n_files [of 23] by auto
  have "replicate (Suc 30) CHR ''a'' \<notin> (\<lambda>k. replicate k CHR ''a'') ` {..23}"
  proof
    assume "replicate (Suc 30) CHR ''a'' \<in> (\<lambda>k. replicate k CHR ''a'') ` {..23}"
    then obtain k where "k \<le> 23" "replicate (Suc 30) CHR ''a'' = replicate k CHR ''a''" by blast
    from arg_cong [OF this(2), of length] this(1) show False by simp
  qed
  with s(3) have "abs_names (fs s) (cstr (tl (nth_path 30))) = None"
    unfolding nth_path(2) [of 30, simplified] by auto
  with tfs_open_directory_full [OF s(1) nth_path(1) [of 30], of 1] s(1,2) show ?thesis by auto
qed

text \<open>With all 20 handles open, opening an existing file without truncation answers
  -1 and changes nothing, and opening a new one with \<open>TFS_O_CREAT\<close> answers -1 although the file
  stays created, which the comment at the end of \<open>tfs_open\<close> announces.\<close>

lemma tfs_open_handles_full:
  assumes "ops_inv s" and "proper_path p" and "called_destroy s \<noteq> DESTROY"
    and "\<forall>h<MAX_OPEN_FILES. open_handle (fs s) h" and "flags AND TFS_O_TRUNC = 0"
  shows "\<exists>t. tfs_open (Some p) flags s = Inr (-1, t) \<and> ops_inv t \<and> open_files t = open_files s
    \<and> (if abs_names (fs s) (cstr (tl p)) = None \<and> flags AND TFS_O_CREAT \<noteq> 0
          \<and> card (dom (abs_files (fs s))) \<noteq> MAX_DIR_ENTRIES
       then \<exists>i. abs_files (fs s) i = None \<and> abs_ops t = (abs_ops s)
         \<lparr>names := (abs_names (fs s))(cstr (tl p) \<mapsto> i), files := (abs_files (fs s))(i \<mapsto> [])\<rparr>
       else abs_ops t = abs_ops s)"
proof -
  have "fs_ok s (Open p flags)" using assms(2,5) by (simp add: truncate_safe_def)
  from step_open [OF assms(1) this] obtain r t where
    rt: "tfs_open (Some p) flags s = Inr (r, t)" "ops_inv t"
      "spec_open (cstr (tl p)) flags (abs_ops s) r (abs_ops t)"
    by (auto simp: andthen_eq_Inr)
  have full: "first_index (\<lambda>h. abs_fds (fs s) h = None) 0 MAX_OPEN_FILES = None"
    using assms(4) by (simp add: first_index_eq_None abs_fds_def)
  have r: "r = -1" and t: "if abs_names (fs s) (cstr (tl p)) = None \<and> flags AND TFS_O_CREAT \<noteq> 0
      \<and> card (dom (abs_files (fs s))) \<noteq> MAX_DIR_ENTRIES
    then \<exists>i. abs_files (fs s) i = None \<and> abs_ops t = (abs_ops s)
         \<lparr>names := (abs_names (fs s))(cstr (tl p) \<mapsto> i), files := (abs_files (fs s))(i \<mapsto> [])\<rparr>
    else abs_ops t = abs_ops s"
    using rt(3) full assms(3,5)
    by (auto simp: spec_open_def spec_attach_def abs_ops_def split: option.splits if_splits)
  have "open_files t = open_files s"
    using rt(1,2) assms(1,3) open_count_open [OF rt(3) [unfolded abs_ops_def]]
    by (simp add: ops_inv_def r)
  with rt(1,2) r t show ?thesis by blast
qed

text \<open>C24: The i-node table and the data blocks never run out before the root directory does: in
  every well-formed state \<open>inode_create\<close> finds a free i-node and \<open>data_block_alloc\<close> a
  free block, so the unchecked \<open>data_block_alloc\<close> in \<open>tfs_write\<close> cannot fail.\<close>

theorem tables_never_run_out:
  assumes "fs_inv s"
  shows "fst (inode_create T_FILE s) \<noteq> -1 \<and> fst (data_block_alloc s) \<noteq> -1"
  using inode_table_not_full [OF assms] blocks_not_full [OF assms] by blast

lemma tables_never_run_out_witness:
  "fst (inode_create T_FILE (fs boot)) \<noteq> -1 \<and> fst (data_block_alloc (fs boot)) \<noteq> -1"
  by (rule tables_never_run_out [OF boot_fs_inv(1)])

section \<open>Names the directory does not handle as documented\<close>

lemma attach_fields:
  "fs_data (snd (add_to_open_file_table i off s)) = fs_data s"
  "inode_table (snd (add_to_open_file_table i off s)) = inode_table s"
  by (simp_all add: add_to_open_file_table_def split: option.split)

text \<open>The creating branch of \<open>tfs_open\<close>, for any path that the lookup does not find.\<close>

lemma open_creates:
  assumes inv: "fs_inv s" and missing: "tfs_lookup_unsynchronized (Some p) s = -1"
    and flags: "flags AND TFS_O_CREAT \<noteq> 0" and p: "p \<noteq> []" "strlen (tl p) \<noteq> 0"
    and room: "card (dom (abs_files s)) \<noteq> MAX_DIR_ENTRIES"
  obtains i k where "dir_free (fs_data s) (block_addr s 0) = Some k" and "i < INODE_TABLE_SIZE"
    and "i \<noteq> 0" and "\<not> live s i"
    and "tfs_open_unsynchronized (Some p) flags s
      = Inr (add_to_open_file_table (int i) 0 (with_entry i k (tl p) s))"
proof -
  obtain i where i: "i < INODE_TABLE_SIZE" "i \<noteq> 0" "\<not> live s i"
    and create: "inode_create T_FILE s = (int i, with_file i s)"
    using inode_create_file [OF inv] .
  obtain k where k: "dir_free (fs_data s) (block_addr s 0) = Some k"
    using room dir_full_iff [OF inv] by (cases "dir_free (fs_data s) (block_addr s 0)") auto
  have "tfs_open_unsynchronized (Some p) flags s
      = Inr (add_to_open_file_table (int i) 0 (with_entry i k (tl p) s))"
    using missing flags p k
    by (simp add: tfs_open_unsynchronized_def create skip_char_def add_root_entry [OF inv i(1,2)]
        with_entry_def)
  with k i that show thesis by blast
qed

text \<open>The lookup of a name after that branch, whatever the handle.\<close>

lemma find_after_create:
  assumes inv: "fs_inv s" and i: "i < INODE_TABLE_SIZE" "i \<noteq> 0" "\<not> live s i"
    and k: "dir_free (fs_data s) (block_addr s 0) = Some k"
    and t: "add_to_open_file_table (int i) 0 (with_entry i k n s) = (r, t)"
  shows "fs_inv t" and "find_in_dir ROOT_DIR_INUM m t = dir_find
    (set_d_name (block_addr s 0) k (entry_name n) (set_d_inumber (block_addr s 0) k (int i) (fs_data s)))
    (block_addr s 0) m"
proof -
  note c = create_inv [OF inv i k, of n, folded with_entry_def]
  show fs: "fs_inv t" using add_handle_inv [OF c(1,3) i(2), of 0] t by simp
  have "fs_data t = fs_data (with_entry i k n s)" "inode_table t = inode_table (with_entry i k n s)"
    using attach_fields [of "int i" 0 "with_entry i k n s"] t by simp_all
  then have "fs_data t = set_d_name (block_addr s 0) k (entry_name n)
      (set_d_inumber (block_addr s 0) k (int i) (fs_data s))" "block_addr t 0 = block_addr s 0"
    using i(2) by (simp_all add: with_entry_fields block_addr_def block_of_def)
  then show "find_in_dir ROOT_DIR_INUM m t = dir_find
    (set_d_name (block_addr s 0) k (entry_name n) (set_d_inumber (block_addr s 0) k (int i) (fs_data s)))
    (block_addr s 0) m"
    by (simp add: find_in_root [OF fs])
qed

lemma int32_small: "i < INODE_TABLE_SIZE \<Longrightarrow> int32 (int i)"
  by simp

text \<open>C40: A path whose name has 40 or more characters is stored cut to 39, and the lookup compares
  40: after \<open>tfs_open\<close> has created such a file, looking up the same path fails, so each
  further open creates one more entry.\<close>

theorem tfs_open_long_name_is_lost:
  assumes "ops_inv s" and "valid_pathname (Some p)" and "strlen (tl p) \<ge> MAX_FILE_NAME"
    and "called_destroy s \<noteq> DESTROY" and "tfs_lookup (Some p) s = Inr (-1, s)"
    and "flags AND TFS_O_CREAT \<noteq> 0" and "card (dom (abs_files (fs s))) \<noteq> MAX_DIR_ENTRIES"
    and "h < MAX_OPEN_FILES" and "\<not> open_handle (fs s) h"
  shows "\<exists>r t. tfs_open (Some p) flags s = Inr (r, t) \<and> r \<noteq> -1 \<and> tfs_lookup (Some p) t = Inr (-1, t)"
proof -
  have inv: "quiet s" "fs_inv (fs s)" using assms(1) by (simp_all add: ops_inv_def)
  have missing: "tfs_lookup_unsynchronized (Some p) (fs s) = -1"
    using assms(5) by (simp add: tfs_lookup_quiet [OF inv(1)])
  have p: "p \<noteq> []" using assms(2) by (auto simp: valid_pathname_def strlen_def)
  obtain i k where k: "dir_free (fs_data (fs s)) (block_addr (fs s) 0) = Some k"
    and i: "i < INODE_TABLE_SIZE" "i \<noteq> 0" "\<not> live (fs s) i"
    and eq: "tfs_open_unsynchronized (Some p) flags (fs s)
      = Inr (add_to_open_file_table (int i) 0 (with_entry i k (tl p) (fs s)))"
    by (rule open_creates [OF inv(2) missing assms(6) p _ assms(7)]) (use assms(3) in auto)
  obtain r f where rf: "add_to_open_file_table (int i) 0 (with_entry i k (tl p) (fs s)) = (r, f)"
    by fastforce
  have "r \<noteq> -1"
    by (rule add_handle_cases [of "int i" 0 "with_entry i k (tl p) (fs s)"])
      (use rf assms(8,9) in \<open>auto simp: open_handle_def with_entry_fields\<close>)
  have "dir_find (fs_data (fs s)) (block_addr (fs s) 0) (tl p) = -1"
    using missing assms(2) find_in_root [OF inv(2), of "tl p"] by (simp add: tfs_lookup_unsynchronized_def)
  from dir_find_insert_long [OF k int32_small [OF i(1)] this assms(3)]
  have "tfs_lookup_unsynchronized (Some p) f = -1"
    using assms(2) find_after_create(2) [OF inv(2) i k rf, of "tl p"]
    by (simp add: tfs_lookup_unsynchronized_def)
  with eq rf \<open>r \<noteq> -1\<close> assms(4) inv(1) show ?thesis
    by (auto simp: tfs_open_quiet tfs_lookup_quiet quiet_def)
qed

lemma tfs_open_long_name_is_lost_witness:
  "\<exists>r t. tfs_open (Some (CHR ''/'' # replicate 40 CHR ''n'')) 1 boot = Inr (r, t) \<and> r \<noteq> -1
    \<and> tfs_lookup (Some (CHR ''/'' # replicate 40 CHR ''n'')) t = Inr (-1, t)"
proof -
  let ?p = "CHR ''/'' # replicate 40 CHR ''n''"
  have p: "valid_pathname (Some ?p)" "strlen (tl ?p) \<ge> 40"
    by (simp_all add: valid_pathname_def strlen_def char_at_def cstr_ident)
  from tfs_open_long_name_is_lost [OF boot_inv(1) p _ boot_lookup, of 1 0] boot_inv(2,3) show ?thesis
    by (simp add: boot_files)
qed

text \<open>An invalid path name is refused by the lookup but not by the creating branch of
  \<open>tfs_open\<close>: with \<open>TFS_O_CREAT\<close> the name without its first character is created, whatever that
  character is, and is then found under the path that starts with a slash.\<close>

lemma tfs_open_creates_for_an_invalid_path:
  assumes "ops_inv s" and "\<not> valid_pathname (Some p)" and "p \<noteq> []" and "strlen (tl p) \<noteq> 0"
    and "strlen (tl p) < MAX_FILE_NAME" and "called_destroy s \<noteq> DESTROY"
    and "tfs_lookup (Some (CHR ''/'' # tl p)) s = Inr (-1, s)"
    and "flags AND TFS_O_CREAT \<noteq> 0" and "card (dom (abs_files (fs s))) \<noteq> MAX_DIR_ENTRIES"
  shows "\<exists>r t i. tfs_open (Some p) flags s = Inr (r, t)
    \<and> tfs_lookup (Some (CHR ''/'' # tl p)) t = Inr (int i, t)"
proof -
  have inv: "quiet s" "fs_inv (fs s)" using assms(1) by (simp_all add: ops_inv_def)
  have missing: "tfs_lookup_unsynchronized (Some p) (fs s) = -1"
    using assms(2) by (simp add: tfs_lookup_unsynchronized_def)
  have slash: "valid_pathname (Some (CHR ''/'' # tl p))"
    using assms(4) by (auto simp: valid_pathname_def strlen_def char_at_def)
  obtain i k where k: "dir_free (fs_data (fs s)) (block_addr (fs s) 0) = Some k"
    and i: "i < INODE_TABLE_SIZE" "i \<noteq> 0" "\<not> live (fs s) i"
    and eq: "tfs_open_unsynchronized (Some p) flags (fs s)
      = Inr (add_to_open_file_table (int i) 0 (with_entry i k (tl p) (fs s)))"
    by (rule open_creates [OF inv(2) missing assms(8,3,4,9)])
  obtain r f where rf: "add_to_open_file_table (int i) 0 (with_entry i k (tl p) (fs s)) = (r, f)"
    by fastforce
  have "dir_find (fs_data (fs s)) (block_addr (fs s) 0) (tl p) = -1"
    using assms(7) slash find_in_root [OF inv(2), of "tl p"]
    by (simp add: tfs_lookup_quiet [OF inv(1)] tfs_lookup_unsynchronized_def)
  from dir_find_insert [OF k int32_small [OF i(1)] _ this assms(5) refl assms(5)]
  have "tfs_lookup_unsynchronized (Some (CHR ''/'' # tl p)) f = int i"
    using slash find_after_create(2) [OF inv(2) i k rf, of "tl p"]
    by (simp add: tfs_lookup_unsynchronized_def)
  with eq rf assms(6) inv(1) show ?thesis
    by (auto simp: tfs_open_quiet tfs_lookup_quiet quiet_def)
qed

section \<open>Handles that are not open\<close>

text \<open>C35: Closing a handle that is not open answers -1, but the failure branch runs on into the
  rest of the function: the count of open files goes down although no file was closed, both mutexes
  are unlocked a second time, and when the count reaches 0 during a shutdown the waiting thread is
  woken.\<close>

theorem tfs_close_of_a_closed_handle:
  assumes "ops_inv s" and "\<not> valid_file_handle fh \<or> \<not> open_handle (fs s) (nat fh)"
  shows "\<exists>t. tfs_close fh s = Inr (-1, t) \<and> fs t = fs s \<and> open_files t = open_files s - 1
    \<and> open_files t \<noteq> int (open_count (fs t)) \<and> stray_unlocks t = stray_unlocks s + 2
    \<and> (open_files s = 1 \<longrightarrow> called_destroy s = DESTROY \<longrightarrow> broadcasts t = Suc (broadcasts s))"
proof -
  have "quiet s" "open_files s = int (open_count (fs s))" using assms(1) by (simp_all add: ops_inv_def)
  moreover have "\<not> valid_file_handle fh \<or> free_open_file_entries (fs s) (nat fh) = FREE"
    using assms(2) by (auto simp: open_handle_def valid_file_handle_def)
  ultimately show ?thesis by (simp add: tfs_close_not_open)
qed

lemma tfs_close_of_a_closed_handle_witness:
  "\<exists>t. tfs_close 5 boot = Inr (-1, t) \<and> open_files t = open_files boot - 1"
  using tfs_close_of_a_closed_handle [OF boot_inv(1), of 5] boot_inv(3) by auto

text \<open>C37: \<open>tfs_write\<close> does not check that its handle is open. A handle that was never
  opened has the table entry of static storage, i-node 0 and offset 0, so writing through it succeeds and
  overwrites the entries of the root directory.\<close>

theorem tfs_write_through_a_never_opened_handle:
  assumes "ops_inv s" and "h < MAX_OPEN_FILES"
    and "open_file_table (fs s) h = \<lparr>of_inumber = 0, of_offset = 0\<rparr>"
    and "d \<noteq> []" and "length d \<le> BLOCK_SIZE"
  shows "\<exists>t. tfs_write (int h) d (of_nat (length d)) s = Inr (int (length d), t)
    \<and> mem_read (fs_data (fs t)) (block_addr (fs s) 0) (length d) = d"
proof -
  let ?n = "of_nat (length d) :: size_t"
  have inv: "quiet s" "fs_inv (fs s)" using assms(1) by (simp_all add: ops_inv_def)
  note root = inv_root(1) [OF inv(2)]
  have n: "unat ?n = length d" using assms(5) by (intro unat_of_length) simp
  have clip: "clip_to_block ?n 0 = ?n"
    using assms(5) unat_clip_to_block [of 0 ?n] by (intro word_unat_eq_iff [THEN iffD2]) (simp add: n)
  have pos: "?n > 0" using assms(4) n by (simp add: word_positive_iff)
  have addr: "block_addr (fs s) 0 + length d \<le> BLOCK_SIZE * DATA_BLOCKS"
    using inv_block(2) [OF inv(2) root] assms(5) by (simp add: block_addr_def)
  have "i_size (inode_table (fs s) 0) \<noteq> 0" using root by (simp add: has_data_def)
  then have alloc: "alloc_if_empty 0 (fs s) = fs s" by (simp add: alloc_if_empty_def)
  have "\<exists>f. tfs_write_unsynchronized (int h) d ?n (fs s) = Inr (int (length d), f)
      \<and> fs_data f = mem_write (fs_data (fs s)) (block_addr (fs s) 0) d"
    using assms(2,3,5) clip pos inv_block(3) [OF inv(2) root] addr sint_small [of ?n]
    by (simp add: tfs_write_unsynchronized_def get_open_file_entry_def valid_file_handle_def
        inode_get_def valid_inumber_def alloc copy_in_bounds_def n Let_def inode_update_def set_offset_def)
  then show ?thesis by (auto simp: tfs_write_quiet [OF inv(1)] mem_read_write_same)
qed

lemma boot_table: "open_file_table (fs boot) h = \<lparr>of_inumber = 0, of_offset = 0\<rparr>"
  by (simp add: boot_fs inode_create_def inode_update_def data_block_alloc_def state_init_def
      static_state_def Let_def split: option.split)

lemma tfs_write_through_a_never_opened_handle_witness:
  "\<exists>t. tfs_write 3 ''junk'' 4 boot = Inr (4, t) \<and> mem_read (fs_data (fs t)) (block_addr (fs boot) 0) 4 = ''junk''"
  using tfs_write_through_a_never_opened_handle [OF boot_inv(1) _ boot_table, of 3 "''junk''"]
  by (simp add: eval_nat_numeral)

section \<open>Offsets and lengths outside the file\<close>

text \<open>C38: After a file has been truncated by another open, a handle with a positive offset reads past
  the end of it: the unsigned difference of size and offset wraps around, and the read gives the bytes of
  the block that the truncation freed instead of none.\<close>

theorem tfs_read_after_truncation:
  assumes "quiet s" and "fs_inv (fs s)" and "open_handle (fs s) h" and "i = handle_inode (fs s) h"
    and "i_size (inode_table (fs s) i) = 0" and "off = unat (of_offset (open_file_table (fs s) h))"
    and "data_block_get (i_data_block (inode_table (fs s) i)) = Some a" and "0 < off"
    and "0 < n" and "off + n \<le> BLOCK_SIZE"
  shows "\<exists>t. abs_files (fs s) i = Some [] \<and> tfs_read (int h) (replicate n NUL) (of_nat n) s
    = Inr (int n, mem_read (fs_data (fs s)) (a + off) n, t)"
proof -
  let ?o = "of_offset (open_file_table (fs s) h)" and ?n = "of_nat n :: size_t"
  note i = inv_handle [OF assms(2,3)]
  have "content (fs s) i = []" by (simp add: content_def assms(5))
  then have empty: "abs_files (fs s) i = Some []" using i assms(4) by (simp add: abs_files_def)
  have n: "unat ?n = n" using assms(10) by (intro unat_of_length) simp
  have "unat (0 - ?o) = 2 ^ 64 - off"
    using assms(6,8) unfolding unat_sub_if_size word_size by simp
  then have "?n < 0 - ?o" using assms(10) by (simp add: word_less_nat_alt n)
  then have "bytes_to_read 0 ?o ?n = ?n" by (simp add: bytes_to_read_def)
  moreover have "?n > 0" using assms(9) n by (simp add: word_positive_iff)
  moreover have "a + off + n \<le> BLOCK_SIZE * DATA_BLOCKS"
    using assms(7,10) by (auto simp: data_block_get_def valid_block_number_def split: if_splits)
  ultimately have "\<exists>f. tfs_read_unsynchronized (int h) (replicate n NUL) ?n (fs s)
      = Inr (int n, mem_read (fs_data (fs s)) (a + off) n, f)"
    using assms(4-7,10) i sint_small [of ?n]
    by (simp add: tfs_read_unsynchronized_def get_open_file_entry_open [OF assms(3)]
        inode_get_live copy_in_bounds_def n Let_def)
  with empty show ?thesis by (auto simp: tfs_read_quiet [OF assms(1)])
qed

text \<open>A file of 4 bytes, truncated by a second open while the first handle is at offset 4.\<close>

lemma boot_truncated:
  obtains t u r where "ops_inv t" and "tfs_open (Some ''/f'') 2 t = Inr (r, u)" and "quiet u"
    and "fs_inv (fs u)" and "open_handle (fs u) 0" and "of_offset (open_file_table (fs u) 0) = 4"
    and "i_size (inode_table (fs u) (handle_inode (fs u) 0)) = 0"
    and "valid_block_number (i_data_block (inode_table (fs u) (handle_inode (fs u) 0)))"
    and "open_handle (fs t) 0" and "of_offset (open_file_table (fs t) 0) = 4"
proof -
  obtain t i where t: "ops_inv t" and abs: "abs_ops t = \<lparr>names = [''f'' \<mapsto> i], files = [i \<mapsto> ''AAA!''],
      fds = [0 \<mapsto> (i, 4)], closing = False\<rparr>"
    by (rule boot_f_write)
  have inv: "quiet t" "fs_inv (fs t)" using t by (simp_all add: ops_inv_def)
  have "fds (abs_ops t) 0 = Some (i, 4)" "names (abs_ops t) ''f'' = Some i"
    "files (abs_ops t) i = Some ''AAA!''" "called_destroy t \<noteq> DESTROY"
    by (simp_all add: abs flip: closing_abs_ops)
  then have h: "open_handle (fs t) 0" "handle_inode (fs t) 0 = i"
      "unat (of_offset (open_file_table (fs t) 0)) = 4" and name: "abs_names (fs t) ''f'' = Some i"
    and i: "live (fs t) i" "i \<noteq> 0" "content (fs t) i = ''AAA!''" and up: "called_destroy t \<noteq> DESTROY"
    by (auto simp: abs_ops_def abs_fds_def abs_files_def split: if_splits)
  from h(3) have off: "of_offset (open_file_table (fs t) 0) = 4"
    by (intro word_unat_eq_iff [THEN iffD2]) simp
  have "unat (i_size (inode_table (fs t) i)) = 4" using length_content [of "fs t" i] i(3) by simp
  then have data: "has_data (fs t) i" using i(1) by (auto simp: has_data_def)
  have found: "tfs_lookup_unsynchronized (Some ''/f'') (fs t) = int i"
    using name abs_names_lookup [OF inv(2) path_f(1)]
    by (cases rule: lookup_cases [OF inv(2), of "Some ''/f''"]) (auto simp: path_f split: if_splits)
  define s1 where "s1 = snd (truncate_inode i (fs t))"
  have trunc: "truncate_inode i (fs t) = (True, s1)" using truncate_eq [OF inv(2) i(1)] by (simp add: s1_def)
  have s1: "s1 = inode_update i (\<lambda>n. n\<lparr>i_size := 0\<rparr>)
      ((fs t)\<lparr>free_blocks := (free_blocks (fs t))(block_of (fs t) i := FREE)\<rparr>)"
    using truncate_eq [OF inv(2) i(1)] data by (simp add: s1_def)
  have live1: "fs_inv s1" "live s1 i"
    using truncate_inv [OF inv(2) i(1,2)] i(1) by (simp_all add: s1_def [symmetric]) (simp add: s1 live_def)
  obtain r f where rf: "add_to_open_file_table (int i) 0 s1 = (r, f)" by fastforce
  have open_eq: "tfs_open_unsynchronized (Some ''/f'') 2 (fs t) = Inr (r, f)"
    using found i(1) by (simp add: tfs_open_unsynchronized_def inode_get_live trunc rf)
  have f: "inode_table f = inode_table s1" "open_handle f 0" "open_file_table f 0 = open_file_table (fs t) 0"
    "fs_inv f"
  proof -
    have "open_handle s1 0" using h(1) by (simp add: s1 open_handle_def)
    then have "open_handle f 0 \<and> open_file_table f 0 = open_file_table (fs t) 0"
      by (rule_tac add_handle_cases [of "int i" 0 s1]; use rf in \<open>auto simp: s1 open_handle_def\<close>)
    then show "open_handle f 0" "open_file_table f 0 = open_file_table (fs t) 0" by simp_all
    show "inode_table f = inode_table s1" using attach_fields(2) [of "int i" 0 s1] rf by simp
    show "fs_inv f" using add_handle_inv [OF live1 i(2), of 0] rf by simp
  qed
  have hf: "handle_inode f 0 = i" using h(2) f(3) by (simp add: handle_inode_def)
  have "i_size (inode_table f i) = 0" "valid_block_number (i_data_block (inode_table f i))"
    using inv_block(1,2) [OF inv(2) data] by (simp_all add: f(1) s1 valid_block_number_def)
  with that [OF t] open_eq inv(1) up f hf off h(1) show thesis
    by (auto simp: tfs_open_quiet quiet_def)
qed

lemma tfs_read_after_truncation_witness:
  "\<exists>u v bytes. quiet u \<and> abs_files (fs u) (handle_inode (fs u) 0) = Some []
    \<and> tfs_read 0 (replicate 10 NUL) 10 u = Inr (10, bytes, v)"
proof -
  obtain u where u: "quiet u" "fs_inv (fs u)" "open_handle (fs u) 0"
    "of_offset (open_file_table (fs u) 0) = 4" "i_size (inode_table (fs u) (handle_inode (fs u) 0)) = 0"
    "valid_block_number (i_data_block (inode_table (fs u) (handle_inode (fs u) 0)))"
    by (rule boot_truncated)
  then obtain a where "data_block_get (i_data_block (inode_table (fs u) (handle_inode (fs u) 0))) = Some a"
    by (simp add: data_block_get_def)
  from tfs_read_after_truncation [OF u(1-3) refl u(5) refl this, of 10] u(1,4) show ?thesis by auto
qed

text \<open>C39: A length so large that length plus offset wraps around a \<open>size_t\<close> escapes the limit of one
  block: \<open>tfs_write\<close> then copies the whole length, far beyond the buffer and the block.\<close>

theorem tfs_write_length_wraps:
  assumes "ops_inv s" and "open_handle (fs s) h" and "length buffer < 2 ^ 63"
    and "2 ^ 64 \<le> unat len + unat (of_offset (open_file_table (fs s) h))"
  shows "tfs_write (int h) buffer len s = Inl Memory_Fault"
proof -
  let ?o = "of_offset (open_file_table (fs s) h)" and ?i = "handle_inode (fs s) h"
  have inv: "quiet s" "fs_inv (fs s)" "offset_ok (fs s) h"
    using assms(1,2) by (auto simp: ops_inv_def offsets_inv_def)
  note i = inv_handle [OF inv(2) assms(2)]
  have o_le: "unat ?o \<le> unat (i_size (inode_table (fs s) ?i))"
    using inv(3) by (simp add: offset_ok_def word_le_nat_alt)
  then have o: "unat ?o \<le> BLOCK_SIZE" using inv_size_le [OF inv(2) i(2)] by simp
  have lt: "unat len < 2 ^ 64" using unsigned_less [of len, where ?'a = nat] by simp
  have "unat ?o \<noteq> 0" using assms(4) lt by linarith
  with o_le have data: "has_data (fs s) ?i" using i(2) by (auto simp: has_data_def)
  have big: "unat len \<ge> 2 ^ 64 - BLOCK_SIZE" using assms(4) o by linarith
  have "unat (len + ?o) = unat len + unat ?o - 2 ^ 64"
    using assms(4) lt o by (simp add: unat_word_ariths mod_if)
  then have "unat (len + ?o) \<le> BLOCK_SIZE" using lt o by linarith
  then have clip: "clip_to_block len ?o = len"
    by (simp add: clip_to_block_def word_less_nat_alt)
  have "len > 0" using big by (simp add: word_positive_iff)
  moreover have "alloc_if_empty ?i (fs s) = fs s"
    using data by (simp add: alloc_if_empty_def has_data_def)
  moreover have "\<not> copy_in_bounds a (unat len) buffer" for a
    using big assms(3) by (simp add: copy_in_bounds_def)
  ultimately have "tfs_write_unsynchronized (int h) buffer len (fs s) = Inl Memory_Fault"
    using clip i inv_block(3) [OF inv(2) data]
    by (simp add: tfs_write_unsynchronized_def get_open_file_entry_open [OF assms(2)]
        inode_get_live Let_def)
  then show ?thesis by (simp add: tfs_write_quiet [OF inv(1)])
qed

lemma tfs_write_length_wraps_witness:
  "\<exists>s. ops_inv s \<and> tfs_write 0 ''AAA!'' (-4) s = Inl Memory_Fault"
proof -
  obtain t where "ops_inv t" "open_handle (fs t) 0" "of_offset (open_file_table (fs t) 0) = 4"
    by (rule boot_truncated)
  with tfs_write_length_wraps [of t 0 "''AAA!''" "-4"] show ?thesis by auto
qed

end
