(* ===== verification/FS_Linear.thy ===== *)
theory FS_Linear
  imports FS_Shutdown
begin

text \<open>
  Histories of concurrent threads: what each thread calls, the points at which the calls take effect, what they
  return; and the operations of \<open>FS_Operations\<close> run one at a time, to which the histories are compared.
\<close>

section \<open>Histories\<close>

text \<open>
  What takes effect: an operation, the announcement of the shutdown, and the point at which
  \<open>tfs_destroy_after_all_closed\<close> is past its wait. An effect has the return value and, for a read, the bytes.
\<close>

datatype occurrence = Do call | Announce | Shut_Down

datatype act = Begins nat call | Acts nat occurrence "int \<times> string" | Ends nat int

definition step_acts :: "nat \<Rightarrow> sys \<Rightarrow> sys \<Rightarrow> act list" where
  "step_acts t s s' =
     (case pcs s t of
        Open_Body n f \<Rightarrow> (case pcs s' t of Open_Unlock2 r \<Rightarrow> [Acts t (Do (Call_Open n f)) (r, [])] | _ \<Rightarrow> [])
      | Close_Body h \<Rightarrow> (case pcs s' t of Close_Count r \<Rightarrow> [Acts t (Do (Call_Close h)) (r, [])] | _ \<Rightarrow> [])
      | IO_Body c \<Rightarrow> (case pcs s' t of IO_Unlock1 r \<Rightarrow> [Acts t (Do (Call_IO c)) (r, buffers s' t)] | _ \<Rightarrow> [])
      | Destroy_Set \<Rightarrow> [Acts t Announce (0, [])]
      | Destroy_Test \<Rightarrow> (case pcs s' t of Destroy_Unlock \<Rightarrow> [Acts t Shut_Down (0, [])] | _ \<Rightarrow> [])
      | Returned r \<Rightarrow> [Ends t r]
      | _ \<Rightarrow> [])"

fun event_acts :: "event \<Rightarrow> sys \<Rightarrow> sys \<Rightarrow> act list" where
  "event_acts (Run t) s s' = step_acts t s s'"
| "event_acts (Call t c) s s' = [Begins t c]"
| "event_acts (Spurious t) s s' = []"

text \<open>A schedule, run with its history.\<close>

fun history :: "event list \<Rightarrow> sys \<Rightarrow> (act list \<times> sys) option" where
  "history [] s = Some ([], s)"
| "history (e # es) s = (case exec e s of
     None \<Rightarrow> None
   | Some s' \<Rightarrow> (case history es s' of None \<Rightarrow> None | Some (h, u) \<Rightarrow> Some (event_acts e s s' @ h, u)))"

lemma history_reaches: "history es s = Some (h, u) \<Longrightarrow> reaches sys_step s0 s \<Longrightarrow> reaches sys_step s0 u"
proof (induction es arbitrary: s h)
  case (Cons e es)
  then obtain s' h' where s': "exec e s = Some s'" "history es s' = Some (h', u)"
    by (auto split: option.splits)
  with Cons.prems(2) have "reaches sys_step s0 s'"
    by (blast intro: reaches_step sys_step_exec [THEN iffD2])
  with Cons.IH s'(2) show ?case by blast
qed simp

text \<open>The acts of one thread: calls that are over, and those of the call under way.\<close>

fun actor :: "act \<Rightarrow> nat" where
  "actor (Begins t c) = t"
| "actor (Acts t x r) = t"
| "actor (Ends t r) = t"

definition acts_by :: "nat \<Rightarrow> act list \<Rightarrow> act list" where
  "acts_by t h = filter (\<lambda>a. actor a = t) h"

fun occurrence_of :: "act \<Rightarrow> (occurrence \<times> int \<times> string) list" where
  "occurrence_of (Acts t x r) = [(x, r)]"
| "occurrence_of a = []"

definition occurrences :: "act list \<Rightarrow> (occurrence \<times> int \<times> string) list" where
  "occurrences h = concat (map occurrence_of h)"

definition acted :: "nat \<Rightarrow> call \<Rightarrow> int \<times> string \<Rightarrow> act list" where
  "acted t c r = Begins t c # (case c of
     Call_Destroy \<Rightarrow> [Acts t Announce (0, []), Acts t Shut_Down r] | _ \<Rightarrow> [Acts t (Do c) r])"

definition finished :: "nat \<Rightarrow> (call \<times> int \<times> string) list \<Rightarrow> act list" where
  "finished t calls = concat (map (\<lambda>(c, r). acted t c r @ [Ends t (fst r)]) calls)"

definition underway :: "nat \<Rightarrow> pc \<Rightarrow> act list \<Rightarrow> bool" where
  "underway t p h = (case p of
     Idle \<Rightarrow> h = []
   | Open_Lock1 n f \<Rightarrow> h = [Begins t (Call_Open n f)]
   | Open_Lock2 n f \<Rightarrow> h = [Begins t (Call_Open n f)]
   | Open_Body n f \<Rightarrow> h = [Begins t (Call_Open n f)]
   | Open_Unlock2 r \<Rightarrow> \<exists>n f. h = acted t (Call_Open n f) (r, [])
   | Open_Unlock1 r \<Rightarrow> \<exists>n f. h = acted t (Call_Open n f) (r, [])
   | Close_Lock1 x \<Rightarrow> h = [Begins t (Call_Close x)]
   | Close_Lock2 x \<Rightarrow> h = [Begins t (Call_Close x)]
   | Close_Body x \<Rightarrow> h = [Begins t (Call_Close x)]
   | Close_Fail1 \<Rightarrow> False
   | Close_Fail2 \<Rightarrow> False
   | Close_Count r \<Rightarrow> \<exists>x. h = acted t (Call_Close x) (r, [])
   | Close_Unlock1 r \<Rightarrow> \<exists>x. h = acted t (Call_Close x) (r, [])
   | Close_Unlock2 r \<Rightarrow> \<exists>x. h = acted t (Call_Close x) (r, [])
   | IO_Lock1 c \<Rightarrow> h = [Begins t (Call_IO c)]
   | IO_Body c \<Rightarrow> h = [Begins t (Call_IO c)]
   | IO_Unlock1 r \<Rightarrow> \<exists>c b. h = acted t (Call_IO c) (r, b)
   | Destroy_Lock \<Rightarrow> h = [Begins t Call_Destroy]
   | Destroy_Set \<Rightarrow> h = [Begins t Call_Destroy]
   | Destroy_Test \<Rightarrow> h = [Begins t Call_Destroy, Acts t Announce (0, [])]
   | Destroy_Wait \<Rightarrow> h = [Begins t Call_Destroy, Acts t Announce (0, [])]
   | Destroy_Woken \<Rightarrow> h = [Begins t Call_Destroy, Acts t Announce (0, [])]
   | Destroy_Unlock \<Rightarrow> h = acted t Call_Destroy (0, [])
   | Destroy_Free \<Rightarrow> h = acted t Call_Destroy (0, [])
   | Returned r \<Rightarrow> \<exists>c b. h = acted t c (r, b))"

definition in_order :: "nat \<Rightarrow> pc \<Rightarrow> act list \<Rightarrow> bool" where
  "in_order t p h \<longleftrightarrow> (\<exists>calls now. h = finished t calls @ now \<and> underway t p now)"

lemma acts_simps [simp]:
  "acts_by t [] = []" "acts_by t (h @ h') = acts_by t h @ acts_by t h'"
  "acts_by t (a # h) = (if actor a = t then a # acts_by t h else acts_by t h)"
  "occurrences [] = []" "occurrences (h @ h') = occurrences h @ occurrences h'"
  "occurrences (a # h) = occurrence_of a @ occurrences h"
  by (simp_all add: acts_by_def occurrences_def)

section \<open>The operations alone\<close>

text \<open>
  The state of the operations between calls. While a thread has closed a file and not counted it yet,
  \<open>open_files\<close> is one less than the variable.
\<close>

definition settled :: "sys \<Rightarrow> ops_state" where
  "settled s = \<lparr>fs = sfs s, called_destroy = destroy_flag s,
     open_files = file_count s - (if \<exists>t r. pcs s t = Close_Count r then 1 else 0),
     locked = (\<lambda>_. False), pthread_rets = [], stray_unlocks = 0, broadcasts = 0\<rparr>"

text \<open>What an occurrence does as a call of the sequential operation; a close may broadcast.\<close>

fun alone :: "ops_state \<Rightarrow> occurrence \<Rightarrow> int \<times> string \<Rightarrow> ops_state \<Rightarrow> bool" where
  "alone a (Do (Call_Open n f)) (r, bs) b \<longleftrightarrow> tfs_open n f a = Inr (r, b) \<and> bs = []"
| "alone a (Do (Call_Close h)) (r, bs) b \<longleftrightarrow> (\<exists>k. tfs_close h a = Inr (r, b\<lparr>broadcasts := k\<rparr>)) \<and> bs = []"
| "alone a (Do (Call_IO (IO_Lookup n))) (r, bs) b \<longleftrightarrow> tfs_lookup n a = Inr (r, b) \<and> bs = []"
| "alone a (Do (Call_IO (IO_Write h x len))) (r, bs) b \<longleftrightarrow> tfs_write h x len a = Inr (r, b) \<and> bs = []"
| "alone a (Do (Call_IO (IO_Read h x len))) (r, bs) b \<longleftrightarrow> tfs_read h x len a = Inr (r, bs, b)"
| "alone a (Do Call_Destroy) rb b \<longleftrightarrow> False"
| "alone a Announce (r, bs) b \<longleftrightarrow> b = a\<lparr>called_destroy := DESTROY\<rparr>"
| "alone a Shut_Down (r, bs) b \<longleftrightarrow> called_destroy a = DESTROY \<and> open_files a = 0 \<and> tfs_destroy a = (r, b)"

text \<open>What a thread that holds a mutex can rely on.\<close>

fun untouched :: "lock_id \<Rightarrow> sys \<Rightarrow> sys \<Rightarrow> bool" where
  "untouched Single_Global_Lock s s' \<longleftrightarrow> sfs s' = sfs s"
| "untouched Called_Destroy_Mutex s s' \<longleftrightarrow> file_count s' = file_count s \<and> destroy_flag s' = destroy_flag s"

section \<open>One step\<close>

text \<open>The same state with the open handles counted.\<close>

definition at_rest :: "sys \<Rightarrow> ops_state" where
  "at_rest s = \<lparr>fs = sfs s, called_destroy = destroy_flag s, open_files = int (open_count (sfs s)),
     locked = (\<lambda>_. False), pthread_rets = [], stray_unlocks = 0, broadcasts = 0\<rparr>"

lemma settled_at_rest: "count_inv s \<Longrightarrow> settled s = at_rest s"
proof -
  have "counting p \<longleftrightarrow> (\<exists>r. p = Close_Count r)" for p by (cases p) auto
  then show "count_inv s \<Longrightarrow> settled s = at_rest s" by (simp add: settled_def at_rest_def count_inv_def)
qed

lemma at_rest_quiet: "quiet (at_rest s)"
  by (simp add: quiet_def at_rest_def)

lemma linear_open:
  assumes "pcs s t = Open_Body n f" and "thread_step t s = Some s'" and "\<not> crashed s'"
  shows "\<exists>r. pcs s' t = Open_Unlock2 r \<and> tfs_open n f (at_rest s) = Inr (r, at_rest s')"
proof (cases "destroy_flag s = DESTROY")
  case True
  with assms show ?thesis
    by (auto simp: thread_step_eq open_body_def tfs_open_quiet [OF at_rest_quiet] split: if_splits)
      (auto simp: at_rest_def)
next
  case False
  with assms obtain r g where g: "tfs_open_unsynchronized n f (sfs s) = Inr (r, g)"
    "sfs s' = g" "destroy_flag s' = destroy_flag s" "pcs s' t = Open_Unlock2 r"
    by (auto simp: thread_step_eq open_body_def split: if_splits sum.splits prod.splits)
  with False open_open_count [OF g(1)] show ?thesis
    by (simp add: tfs_open_quiet [OF at_rest_quiet]) (simp add: at_rest_def)
qed

lemma linear_close:
  assumes "pcs s t = Close_Body h" and "thread_step t s = Some s'" and "\<not> failed_close s'"
  shows "\<exists>r k. pcs s' t = Close_Count r \<and> tfs_close h (at_rest s) = Inr (r, (at_rest s')\<lparr>broadcasts := k\<rparr>)"
proof -
  from assms obtain r g where g: "remove_from_open_file_table h (sfs s) = (r, g)" "r \<noteq> -1"
    "sfs s' = g" "destroy_flag s' = destroy_flag s" "pcs s' t = Close_Count r"
    by (auto simp: thread_step_eq close_body_def split: if_splits prod.splits)
  then have h: "open_handle (fs (at_rest s)) (nat h)" "h = int (nat h)" "r = 0" "g = closed (nat h) (sfs s)"
    by (auto simp: remove_from_open_file_table_def open_handle_def valid_file_handle_def closed_def
        at_rest_def split: if_splits)
  from tfs_close_quiet [OF at_rest_quiet h(1)] remove_open_count [OF g(1,2)] g h(2-4)
  show ?thesis by (simp add: at_rest_def)
qed

lemma linear_io:
  assumes "pcs s t = IO_Body c" and "thread_step t s = Some s'" and "\<not> crashed s'"
  shows "\<exists>r. pcs s' t = IO_Unlock1 r \<and> alone (at_rest s) (Do (Call_IO c)) (r, buffers s' t) (at_rest s')"
proof -
  from assms obtain r b g where g: "io_body c (sfs s) = Inr (r, b, g)" "sfs s' = g" "buffers s' t = b"
    "destroy_flag s' = destroy_flag s" "pcs s' t = IO_Unlock1 r"
    by (auto simp: thread_step_eq split: if_splits sum.splits prod.splits)
  with io_open_count [OF g(1)] show ?thesis
    by (cases c)
      (auto simp: tfs_lookup_quiet [OF at_rest_quiet] tfs_write_quiet [OF at_rest_quiet]
        tfs_read_quiet [OF at_rest_quiet] andthen_eq_Inr, auto simp: at_rest_def)
qed

definition linear :: "sys \<Rightarrow> act list \<Rightarrow> sys \<Rightarrow> bool" where
  "linear s h s' \<longleftrightarrow> accepts alone (at_rest s) (map fst (occurrences h)) (map snd (occurrences h)) (at_rest s')"

lemma linear_step:
  assumes inv: "count_inv s" "pc_inv s (pcs s t)" and run: "thread_step t s = Some s'"
    and ok: "\<not> failed_close s'" "\<not> crashed s'"
  shows "linear s (step_acts t s s') s'"
proof (cases "pcs s t")
  case (Open_Body n f)
  with linear_open [OF _ run ok(2)] show ?thesis by (auto simp: linear_def step_acts_def)
next
  case (Close_Body h)
  with linear_close [OF _ run ok(1)] show ?thesis by (auto simp: linear_def step_acts_def)
next
  case (IO_Body c)
  with linear_io [OF _ run ok(2)] show ?thesis by (auto simp: linear_def step_acts_def)
next
  case Destroy_Test
  with inv(2) have "destroy_flag s = DESTROY" by (simp add: pc_inv_def)
  with Destroy_Test run inv(1) show ?thesis
    by (auto simp: linear_def step_acts_def thread_step_eq destroy_test_def count_inv_def tfs_destroy_def
        state_destroy_def at_rest_def split: if_splits)
qed (use run in \<open>auto simp: linear_def step_acts_def thread_step_eq lock_eq_Some unlock_eq_Some close_count_def
  state_destroy_def Let_def at_rest_def split: if_splits\<close>)

text \<open>The acts of a step continue those of its thread.\<close>

lemma finished_more: "finished t calls @ acted t c r @ [Ends t (fst r)] = finished t (calls @ [(c, r)])"
  by (simp add: finished_def)

lemma in_order_start: "in_order t Idle []"
  unfolding in_order_def by (rule exI [of _ "[]"]) (simp add: finished_def underway_def)

lemma in_order_more:
  assumes "in_order t p h" and "\<And>now. underway t p now \<Longrightarrow> underway t q (now @ a)"
  shows "in_order t q (h @ a)"
  using assms unfolding in_order_def by (metis append_assoc)

lemma in_order_end: "in_order t (Returned r) h \<Longrightarrow> in_order t Idle (h @ [Ends t r])"
  unfolding in_order_def underway_def by (auto simp: finished_more [of _ _ _ "(r, _)", simplified])

lemma underway_step:
  assumes run: "thread_step t s = Some s'" and ok: "\<not> failed_close s'" "\<not> crashed s'"
    and now: "underway t (pcs s t) now" and "\<forall>r. pcs s t \<noteq> Returned r"
  shows "underway t (pcs s' t) (now @ step_acts t s s')"
  using assms
  by (cases "pcs s t")
    (auto simp: underway_def step_acts_def acted_def thread_step_eq lock_eq_Some unlock_eq_Some open_body_def
      close_body_def close_count_def destroy_test_def Let_def split: if_splits sum.splits prod.splits)

lemma in_order_step:
  assumes run: "thread_step t s = Some s'" and ok: "\<not> failed_close s'" "\<not> crashed s'"
    and before: "in_order u (pcs s u) h"
  shows "in_order u (pcs s' u) (h @ acts_by u (step_acts t s s'))"
proof (cases "u = t")
  case True
  have own: "acts_by t (step_acts t s s') = step_acts t s s'"
    by (simp add: step_acts_def split: pc.split)
  show ?thesis
  proof (cases "\<exists>r. pcs s t = Returned r")
    case ended: True
    then obtain r where r: "pcs s t = Returned r" ..
    with run have "pcs s' t = Idle" by (auto simp: thread_step_eq split: if_splits)
    with in_order_end before r True show ?thesis by (simp add: step_acts_def)
  next
    case False
    with in_order_more [OF before] underway_step [OF run ok] own True show ?thesis by simp
  qed
next
  case False
  have "acts_by u (step_acts t s s') = []"
    using False by (simp add: step_acts_def split: pc.split)
  moreover have "underway u (pcs s u) now \<Longrightarrow> underway u (pcs s' u) now" for now
    using step_others(2) [OF run False] by (auto simp: underway_def)
  ultimately show ?thesis using in_order_more [OF before, of "pcs s' u" "[]"] by simp
qed

text \<open>A step changes what a mutex protects only when its thread holds it.\<close>

lemma touches_held:
  assumes "thread_step t s = Some s'" and "\<not> untouched l s s'"
  shows "holds l (pcs s t)"
  using assms
  by (cases l; cases "pcs s t")
    (auto simp: thread_step_eq lock_eq_Some unlock_eq_Some open_body_def close_body_def close_count_def
      destroy_test_def state_destroy_def Let_def split: if_splits sum.splits prod.splits)

section \<open>Whole schedules\<close>

lemma exec_not_crashed: "exec e s = Some s' \<Longrightarrow> \<not> crashed s"
  by (cases e) (auto simp: thread_step_eq split: if_splits)

lemma exec_failed: "exec e s = Some s' \<Longrightarrow> failed_close s \<Longrightarrow> failed_close s'"
  by (cases e) (auto intro: failed_close_step split: if_splits)

lemma history_before:
  assumes "history es s = Some (h, u)"
  shows "\<not> crashed u \<Longrightarrow> \<not> crashed s" and "\<not> failed_close u \<Longrightarrow> \<not> failed_close s"
  using assms
  by (induction es arbitrary: s h) (auto dest: exec_not_crashed exec_failed split: option.splits)

lemma exec_linear:
  assumes "sys_inv s" and "exec e s = Some s'" and "\<not> failed_close s'" and "\<not> crashed s'"
  shows "linear s (event_acts e s s') s'"
    and "in_order u (pcs s u) h \<Longrightarrow> in_order u (pcs s' u) (h @ acts_by u (event_acts e s s'))"
proof -
  have inv: "count_inv s" "\<forall>t. pc_inv s (pcs s t)"
    using assms(1) exec_failed [OF assms(2)] assms(3) by (auto simp: sys_inv_def)
  show "linear s (event_acts e s s') s'"
    using assms(2-4) inv linear_step
    by (cases e) (auto simp: linear_def at_rest_def split: if_splits)
  assume before: "in_order u (pcs s u) h"
  show "in_order u (pcs s' u) (h @ acts_by u (event_acts e s s'))"
  proof (cases e)
    case (Run t)
    with in_order_step [OF _ assms(3,4) before] assms(2) show ?thesis by simp
  next
    case (Call t c)
    with assms(2) have s': "pcs s t = Idle" "s' = goto t (entry_pc c) s" by (auto split: if_splits)
    have "underway t Idle now \<Longrightarrow> underway t (entry_pc c) (now @ [Begins t c])" for now
      by (cases c) (simp_all add: underway_def)
    with in_order_more [of t Idle h "entry_pc c"] before Call s' show ?thesis
      by (cases "t = u") simp_all
  next
    case (Spurious t)
    with assms(2) have s': "pcs s t = Destroy_Wait" "s' = goto t Destroy_Woken s" by (auto split: if_splits)
    have "underway t Destroy_Wait now \<Longrightarrow> underway t Destroy_Woken (now @ [])" for now
      by (simp add: underway_def)
    with in_order_more [of t Destroy_Wait h Destroy_Woken "[]"] before Spurious s' show ?thesis
      by (cases "t = u") simp_all
  qed
qed

lemma history_linear:
  assumes "sys_inv s" and "history es s = Some (h, s')" and "\<not> failed_close s'" and "\<not> crashed s'"
  shows "linear s h s' \<and> (in_order u (pcs s u) pre \<longrightarrow> in_order u (pcs s' u) (pre @ acts_by u h))"
  using assms
proof (induction es arbitrary: s h pre)
  case Nil
  then show ?case by (simp add: linear_def)
next
  case (Cons e es)
  then obtain s1 h1 where s1: "exec e s = Some s1" "history es s1 = Some (h1, s')" "h = event_acts e s s1 @ h1"
    by (auto split: option.splits)
  have ok: "\<not> failed_close s1" "\<not> crashed s1"
    using history_before [OF s1(2)] Cons.prems(3,4) by simp_all
  have "sys_inv s1"
    using threads.inv_step [OF Cons.prems(1)] s1(1) sys_step_exec by blast
  note rest = Cons.IH [OF this s1(2) Cons.prems(3,4)]
  note first = exec_linear [OF Cons.prems(1) s1(1) ok]
  have "linear s h s'"
    using first(1) rest unfolding linear_def s1(3) by (auto intro: accepts_append)
  moreover have "in_order u (pcs s' u) (pre @ acts_by u h)" if "in_order u (pcs s u) pre"
    using rest [of "pre @ acts_by u (event_acts e s s1)"] first(2) [OF that] by (simp add: s1(3))
  ultimately show ?case by blast
qed

end
