(* ===== verification/Shutdown_Properties.thy ===== *)
theory Shutdown_Properties
  imports FS_Properties FS_Linear
begin

text \<open>
  The properties of concurrent runs of the file system operations, with instances at runs
  that start from \<open>sys0\<close>: the file system after \<open>tfs_init\<close>, and no thread inside an operation.
\<close>

definition sys0 :: sys where
  "sys0 = \<lparr>sfs = fs boot, destroy_flag = INIT, file_count = 0, owner = (\<lambda>_. None),
     pcs = (\<lambda>_. Idle), buffers = (\<lambda>_. []), failed_close = False, crashed = False\<rparr>"

lemma sys0_start: "sys_start sys0"
  using boot_inv(3) by (simp add: sys_start_def sys0_def open_count_def)

section \<open>Mutual exclusion and the count\<close>

text \<open>C9: In every run in which no close of an invalid handle has happened, two threads are never
  at the same time inside the parts of the operations that one mutex protects.\<close>

theorem mutual_exclusion:
  assumes "sys_start s" and "reaches sys_step s s'" and "\<not> failed_close s'"
    and "holds l (pcs s' t)" and "holds l (pcs s' u)"
  shows "t = u"
  by (rule holds_unique [OF reachable_inv(1) [OF assms(1-3)] assms(4,5)])

text \<open>What a schedule from \<open>sys0\<close> reaches, computed.\<close>

lemmas exec_simps = sys0_def thread_step_eq lock_def unlock_def goto_def open_body_def
  close_body_def close_count_def destroy_test_def broadcast_def

lemma sys0_reaches: "exec_all es sys0 = Some s \<Longrightarrow> reaches sys_step sys0 s"
  by (rule reaches_exec [OF _ reaches_refl])

lemma boot_open_body: "tfs_open_unsynchronized (Some ''/f'') 1 (fs boot) = Inr (0, fs boot_f)"
proof -
  have "tfs_open (Some ''/f'') 1 boot = Inr (0, boot_f)" using boot_open by blast
  then show ?thesis
    using boot_inv(2)
    by (auto simp: tfs_open_quiet [OF boot_quiet] andthen_eq_Inr dest: arg_cong [where f = fs])
qed

definition sys_open :: sys where
  "sys_open = the (exec_all [Call 0 (Call_Open (Some ''/f'') 1), Run 0, Run 0] sys0)"

lemma sys_open:
  "exec_all [Call 0 (Call_Open (Some ''/f'') 1), Run 0, Run 0] sys0 = Some sys_open"
  "pcs sys_open 0 = Open_Body (Some ''/f'') 1" "\<not> failed_close sys_open"
  by (simp_all add: sys_open_def exec_simps)

lemma mutual_exclusion_witness:
  "holds Single_Global_Lock (pcs sys_open 0) \<and> \<not> holds Single_Global_Lock (pcs sys_open 1)"
  using mutual_exclusion [OF sys0_start sys0_reaches [OF sys_open(1)] sys_open(3),
      of Single_Global_Lock 0 1] sys_open(2)
  by auto

text \<open>C10: In every run in which no close of an invalid handle has happened, \<open>open_files\<close> is the number of open handles, plus one between the
  removal of a handle in \<open>tfs_close\<close> and the decrement that follows it.\<close>

theorem open_files_counts_open_handles:
  assumes "sys_start s" and "reaches sys_step s s'" and "\<not> failed_close s'"
  shows "file_count s' = int (card {h. open_handle (sfs s') h})
    + (if \<exists>t r. pcs s' t = Close_Count r then 1 else 0)"
proof -
  have "counting p \<longleftrightarrow> (\<exists>r. p = Close_Count r)" for p by (cases p) auto
  with reachable_inv(2) [OF assms] show ?thesis by (simp add: count_inv_def open_count_def)
qed

definition sys_opened :: sys where
  "sys_opened = the (exec_all [Call 0 (Call_Open (Some ''/f'') 1), Run 0, Run 0, Run 0] sys0)"

lemma sys_opened:
  "exec_all [Call 0 (Call_Open (Some ''/f'') 1), Run 0, Run 0, Run 0] sys0 = Some sys_opened"
  "pcs sys_opened = (\<lambda>_. Idle)(0 := Open_Unlock2 0)" "\<not> failed_close sys_opened"
  "file_count sys_opened = 1" "sfs sys_opened = fs boot_f"
  by (simp_all add: sys_opened_def exec_simps boot_open_body)

lemma open_files_counts_open_handles_witness:
  "card {h. open_handle (sfs sys_opened) h} = 1"
  using open_files_counts_open_handles [OF sys0_start sys0_reaches [OF sys_opened(1)] sys_opened(3)]
    sys_opened(2,4)
  by (simp split: if_splits)

section \<open>Shutting down\<close>

text \<open>C6: In every run in which no close of an invalid handle has happened,
  \<open>tfs_destroy_after_all_closed\<close> gets past its wait only when no file is open, and that is final: in every
  later state no handle is open, and a thread that runs the body of \<open>tfs_open\<close> comes out of it with -1.
  (A close of an invalid handle makes the count wrong, and then neither holds.)\<close>

theorem destroy_waits_for_the_last_close:
  assumes "sys_start s" and "reaches sys_step s s'" and "pcs s' t \<in> {Destroy_Unlock, Destroy_Free}"
    and "reaches sys_step s' s''" and "\<not> failed_close s''"
  shows "(\<forall>h. \<not> open_handle (sfs s'') h)
    \<and> (\<forall>u n f. pcs s'' u = Open_Body n f \<longrightarrow> open_body u n f s'' = goto u (Open_Unlock2 (-1)) s'')"
proof -
  have "shut_down s'"
    using shut_down_witness threads.inv_reachable [OF assms(1,2)] assms(3) by blast
  then have "shut_down s''" by (rule down.inv_reaches_from [OF assms(4)])
  with assms(5) shut_down_closed show ?thesis by (auto simp: shut_down_def open_body_def)
qed

definition sys_down :: sys where
  "sys_down = the (exec_all [Call 2 Call_Destroy, Run 2, Run 2, Run 2] sys0)"

lemma sys_down:
  "exec_all [Call 2 Call_Destroy, Run 2, Run 2, Run 2] sys0 = Some sys_down"
  "pcs sys_down 2 = Destroy_Unlock" "\<not> failed_close sys_down"
  by (simp_all add: sys_down_def exec_simps)

lemma destroy_waits_for_the_last_close_witness: "\<forall>h. \<not> open_handle (sfs sys_down) h"
  using destroy_waits_for_the_last_close [OF sys0_start sys0_reaches [OF sys_down(1)] _ reaches_refl
      sys_down(3), of 2] sys_down(2)
  by simp

text \<open>C8: No wake-up is lost, as long as no close of an invalid handle has happened: while a thread
  sleeps in \<open>tfs_destroy_after_all_closed\<close>, the shutdown is announced and a file is still open, or being closed
  by a thread that has yet to count and signal.\<close>

theorem no_lost_wakeup:
  assumes "sys_start s" and "reaches sys_step s s'" and "\<not> failed_close s'"
    and "pcs s' t = Destroy_Wait"
  shows "destroy_flag s' = DESTROY \<and> file_count s' \<noteq> 0
    \<and> ((\<exists>h. open_handle (sfs s') h) \<or> (\<exists>u r. pcs s' u = Close_Count r))"
proof -
  note inv = reachable_inv [OF assms(1-3)]
  from inv(3) assms(4) have flag: "destroy_flag s' = DESTROY" "file_count s' \<noteq> 0"
    unfolding pc_inv_def by (auto dest!: spec [of _ t])
  show ?thesis
  proof (cases "\<exists>u. counting (pcs s' u)")
    case True
    then obtain u where "counting (pcs s' u)" ..
    then have "\<exists>r. pcs s' u = Close_Count r" by (cases "pcs s' u") auto
    with flag show ?thesis by blast
  next
    case False
    with inv(2) flag have "open_count (sfs s') \<noteq> 0" by (simp add: count_inv_def)
    then have "\<exists>h. open_handle (sfs s') h" by (auto simp: open_count_def)
    with flag show ?thesis by blast
  qed
qed

definition sys_waiting :: sys where
  "sys_waiting = the (exec_all [Call 0 (Call_Open (Some ''/f'') 1), Run 0, Run 0, Run 0, Run 0,
     Call 2 Call_Destroy, Run 2, Run 2, Run 2] sys0)"

lemma sys_waiting:
  "exec_all [Call 0 (Call_Open (Some ''/f'') 1), Run 0, Run 0, Run 0, Run 0,
     Call 2 Call_Destroy, Run 2, Run 2, Run 2] sys0 = Some sys_waiting"
  "pcs sys_waiting 2 = Destroy_Wait" "\<not> failed_close sys_waiting" "\<not> crashed sys_waiting"
  "pcs sys_waiting 0 = Open_Unlock1 0"
  by (simp_all add: sys_waiting_def exec_simps boot_open_body)

lemma no_lost_wakeup_witness: "destroy_flag sys_waiting = DESTROY \<and> file_count sys_waiting \<noteq> 0"
  using no_lost_wakeup [OF sys0_start sys0_reaches [OF sys_waiting(1)] sys_waiting(3,2)] by simp

text \<open>C11: The operations do not deadlock on the two mutexes, as long as no close of an invalid handle has
  happened (which unlocks them twice) and no operation has accessed memory out of bounds (which ends the process):
  while some thread is inside an operation other than waiting for the last close, some thread can run.\<close>

theorem no_deadlock:
  assumes "sys_start s" and "reaches sys_step s s'" and "\<not> failed_close s'" and "\<not> crashed s'"
    and "pcs s' t \<noteq> Idle" and "pcs s' t \<noteq> Destroy_Wait"
  shows "\<exists>u s''. thread_step u s' = Some s''"
  by (rule some_can_step [OF reachable_inv(1) [OF assms(1-3)] assms(4-6)])

lemma no_deadlock_witness: "\<exists>u s''. thread_step u sys_waiting = Some s''"
  using no_deadlock [OF sys0_start sys0_reaches [OF sys_waiting(1)] sys_waiting(3,4), of 0] sys_waiting(5)
  by simp

section \<open>Agreement with the sequential operations\<close>

text \<open>C4: The concurrent operations are atomic. In every schedule of any threads from a start, with its history
  (while no close of an invalid handle and no access out of bounds has happened): each thread's calls follow one
  another, each taking effect once between its beginning and its end with the value it returns and the bytes
  it reads; the operations \<open>tfs_open\<close>, \<open>tfs_close\<close>, \<open>tfs_write\<close>, \<open>tfs_read\<close>, \<open>tfs_lookup\<close>, run alone one after
  the other in the order of these effects from the state at the start, give the same values and the same state,
  \<open>open_files\<close> included, and \<open>tfs_destroy_after_all_closed\<close> passes its wait only after its announcement
  and with \<open>open_files\<close> at 0; while a thread is in the section of a mutex no step of another thread changes
  what that mutex protects; and when no call is under way, or only waits for the last close, both mutexes are free.\<close>

theorem threads_linearize:
  assumes "sys_start s" and "history es s = Some (h, s')" and "\<not> failed_close s'" and "\<not> crashed s'"
  shows "(\<forall>t. in_order t (pcs s' t) (acts_by t h))
    \<and> accepts alone (settled s) (map fst (occurrences h)) (map snd (occurrences h)) (settled s')
    \<and> (\<forall>l t u s''. holds l (pcs s' t) \<longrightarrow> thread_step u s' = Some s'' \<longrightarrow> u = t \<or> untouched l s' s'')
    \<and> ((\<forall>t. pcs s' t \<in> {Idle, Destroy_Wait}) \<longrightarrow> (\<forall>l. owner s' l = None))"
proof (intro conjI allI impI)
  have start: "sys_inv s" by (rule threads.inv_start [OF assms(1)])
  note inv = reachable_inv [OF assms(1) history_reaches [OF assms(2) reaches_refl] assms(3)]
  have counts: "count_inv s" "count_inv s'"
    using start inv(2) assms(1) by (simp_all add: sys_inv_def sys_start_def)
  have run: "linear s h s'" "in_order t (pcs s t) [] \<Longrightarrow> in_order t (pcs s' t) (acts_by t h)" for t
    using history_linear [OF start assms(2-4), of t "[]"] by simp_all
  show "accepts alone (settled s) (map fst (occurrences h)) (map snd (occurrences h)) (settled s')"
    using run(1) by (simp add: linear_def settled_at_rest [OF counts(1)] settled_at_rest [OF counts(2)])
  show "in_order t (pcs s' t) (acts_by t h)" for t
    using run(2) [of t] in_order_start assms(1) by (simp add: sys_start_def)
  show "u = t \<or> untouched l s' s''" if "holds l (pcs s' t)" "thread_step u s' = Some s''" for l t u s''
    using touches_held [OF that(2)] holds_unique [OF inv(1) that(1)] by blast
  show "owner s' l = None" if "\<forall>t. pcs s' t \<in> {Idle, Destroy_Wait}" for l
  proof (rule ccontr)
    assume "owner s' l \<noteq> None"
    then obtain t where "holds l (pcs s' t)" using inv(1) by (auto simp: lock_inv_def)
    moreover have "pcs s' t = Idle \<or> pcs s' t = Destroy_Wait" using that by blast
    ultimately show False by (cases l) auto
  qed
qed

text \<open>A thread opens a file while another waits to look it up.\<close>

definition two_threads :: "event list" where
  "two_threads = [Call 0 (Call_Open (Some ''/f'') 1), Run 0, Call 1 (Call_IO (IO_Lookup (Some ''/f''))), Run 0, Run 0]"

lemma threads_linearize_witness:
  "\<exists>s. history two_threads sys0 = Some ([Begins 0 (Call_Open (Some ''/f'') 1),
      Begins 1 (Call_IO (IO_Lookup (Some ''/f''))), Acts 0 (Do (Call_Open (Some ''/f'') 1)) (0, [])], s)
    \<and> tfs_open (Some ''/f'') 1 (settled sys0) = Inr (0, settled s)"
proof -
  obtain h s where run: "history two_threads sys0 = Some (h, s)" "\<not> failed_close s" "\<not> crashed s"
      "h = [Begins 0 (Call_Open (Some ''/f'') 1), Begins 1 (Call_IO (IO_Lookup (Some ''/f''))),
        Acts 0 (Do (Call_Open (Some ''/f'') 1)) (0, [])]"
    by (simp add: two_threads_def exec_simps boot_open_body step_acts_def)
  from threads_linearize [OF sys0_start run(1-3)] run(1,4) show ?thesis by auto
qed

section \<open>A failing close\<close>

text \<open>C36: One close of a handle that is not open is enough for \<open>tfs_destroy_after_all_closed\<close> to
  return while a file is open: thread 0 opens a file, thread 1 closes a handle that is not open, and
  thread 2 then finds the count at 0.\<close>

theorem destroy_can_return_with_an_open_file:
  "\<exists>s. reaches sys_step sys0 s \<and> pcs s 2 = Returned 0 \<and> open_handle (sfs s) 0"
proof -
  let ?es = "[Call 0 (Call_Open (Some ''/f'') 1), Run 0, Run 0, Run 0, Run 0, Run 0,
    Call 1 (Call_Close 7), Run 1, Run 1, Run 1, Run 1, Run 1, Run 1, Run 1, Run 1,
    Call 2 Call_Destroy, Run 2, Run 2, Run 2, Run 2, Run 2]"
  have "\<not> open_handle (fs boot_f) 7"
    using boot_f_fds [of 7] by (simp split: if_splits)
  then have "remove_from_open_file_table 7 (fs boot_f) = (-1, fs boot_f)"
    by (intro remove_not_open) (auto simp: open_handle_def)
  then have "\<exists>s. exec_all ?es sys0 = Some s \<and> pcs s 2 = Returned 0 \<and> sfs s = fs boot_f"
    by (simp add: exec_simps boot_open_body state_destroy_def)
  then obtain s where "exec_all ?es sys0 = Some s" "pcs s 2 = Returned 0" "sfs s = fs boot_f" by blast
  with boot_f_handle(1) sys0_reaches show ?thesis by metis
qed

end
