(* ===== verification/C_Text.thy ===== *)
theory C_Text
  imports TFS_Prelude
begin

text \<open>
  The C library's text functions that the client and the server use to put numbers into
  messages: \<open>sprintf\<close> with \<open>%d\<close> or \<open>%ld\<close>, \<open>atoi\<close> and \<open>memcpy\<close>. An object is the list of
  its bytes; running past its end is \<^const>\<open>Memory_Fault\<close>.
\<close>

section \<open>Decimal digits\<close>

fun digits :: "nat \<Rightarrow> string" where
  "digits n = (if n < 10 then [char_of (48 + n)] else digits (n div 10) @ [char_of (48 + n mod 10)])"

declare digits.simps [simp del]

definition sprintf_d :: "int \<Rightarrow> string" where
  "sprintf_d v = (if v < 0 then CHR ''-'' # digits (nat (- v)) else digits (nat v))"

text \<open>\<open>sprintf\<close> stores the text and a NUL.\<close>

definition sprintf_into :: "string \<Rightarrow> string \<Rightarrow> fault + string" where
  "sprintf_into buf txt =
     (if length buf \<le> length txt then Inl Memory_Fault
      else Inr (txt @ NUL # drop (Suc (length txt)) buf))"

definition memcpy_from :: "string \<Rightarrow> nat \<Rightarrow> fault + string" where
  "memcpy_from src n = (if length src < n then Inl Memory_Fault else Inr (take n src))"

section \<open>\<open>atoi\<close>\<close>

definition is_space :: "char \<Rightarrow> bool" where
  "is_space c \<longleftrightarrow> of_char c = (32 :: nat) \<or> (9 \<le> (of_char c :: nat) \<and> (of_char c :: nat) \<le> 13)"

definition is_digit :: "char \<Rightarrow> bool" where
  "is_digit c \<longleftrightarrow> 48 \<le> (of_char c :: nat) \<and> (of_char c :: nat) \<le> 57"

fun atoi_digits :: "int \<Rightarrow> string \<Rightarrow> fault + int" where
  "atoi_digits a [] = Inl Memory_Fault"
| "atoi_digits a (c # s) =
     (if is_digit c then atoi_digits (10 * a + (of_char c - 48)) s else Inr a)"

definition fits_int :: "int \<Rightarrow> bool" where
  "fits_int v \<longleftrightarrow> - (2 ^ 31) \<le> v \<and> v < 2 ^ 31"

text \<open>A number that is not an \<open>int\<close> of 32 bits makes \<open>atoi\<close> undefined: \<^const>\<open>Overflow\<close>.\<close>

definition atoi :: "string \<Rightarrow> fault + int" where
  "atoi s = andthen
     (case dropWhile is_space s of
        [] \<Rightarrow> Inl Memory_Fault
      | c # s' \<Rightarrow>
          if c = CHR ''-'' then andthen (atoi_digits 0 s') (\<lambda>v. Inr (- v))
          else if c = CHR ''+'' then atoi_digits 0 s'
          else atoi_digits 0 (c # s'))
     (\<lambda>v. if fits_int v then Inr v else Inl Overflow)"

section \<open>Round trip\<close>

lemma digit_chars:
  assumes "n < 10"
  shows "is_digit (char_of (48 + n))" and "\<not> is_space (char_of (48 + n))"
    and "char_of (48 + n) \<noteq> CHR ''-''" and "char_of (48 + n) \<noteq> CHR ''+''"
    and "char_of (48 + n) \<noteq> NUL"
    and "of_char (char_of (48 + n :: nat)) = (48 + int n)"
proof -
  have n: "of_char (char_of (48 + n :: nat)) = (48 + n)" using assms by simp
  then show "is_digit (char_of (48 + n))" "\<not> is_space (char_of (48 + n))"
    using assms by (simp_all add: is_digit_def is_space_def)
  have "of_char (char_of (48 + n)) \<noteq> (of_char CHR ''-'' :: nat)"
    "of_char (char_of (48 + n)) \<noteq> (of_char CHR ''+'' :: nat)"
    "of_char (char_of (48 + n)) \<noteq> (of_char NUL :: nat)"
    unfolding n by simp_all
  then show "char_of (48 + n) \<noteq> CHR ''-''" "char_of (48 + n) \<noteq> CHR ''+''" "char_of (48 + n) \<noteq> NUL"
    by metis+
  show "of_char (char_of (48 + n :: nat)) = (48 + int n)"
    using n by (metis of_nat_add of_nat_numeral of_nat_of_char)
qed

lemma digits_chars: "c \<in> set (digits n) \<Longrightarrow> \<exists>d<10. c = char_of (48 + d :: nat)"
proof (induction n rule: digits.induct)
  case (1 n)
  show ?case
  proof (cases "n < 10")
    case True
    with "1.prems" show ?thesis by (auto simp: digits.simps [of n])
  next
    case False
    with "1.prems" have "c \<in> set (digits (n div 10)) \<or> c = char_of (48 + n mod 10)"
      by (auto simp: digits.simps [of n])
    with "1.IH" [OF False] show ?thesis by (auto intro: exI [of _ "n mod 10"])
  qed
qed

lemma digits_not_Nil [simp]: "digits n \<noteq> []"
  by (simp add: digits.simps [of n])

lemma atoi_digits_digits:
  "atoi_digits a (digits n @ s) = atoi_digits (a * 10 ^ length (digits n) + int n) s"
proof (induction n arbitrary: a s rule: digits.induct)
  case (1 n)
  show ?case
  proof (cases "n < 10")
    case True
    then show ?thesis using digit_chars(1,6) [OF True]
      by (simp add: digits.simps [of n] algebra_simps del: of_char_of)
  next
    case False
    have m: "n mod 10 < 10" by simp
    have "int n = 10 * int (n div 10) + int (n mod 10)"
      by (metis mult_div_mod_eq of_nat_add of_nat_mult of_nat_numeral)
    with False show ?thesis using digit_chars(1,6) [OF m] "1.IH" [OF False]
      by (simp add: digits.simps [of n] algebra_simps del: of_char_of)
  qed
qed

text \<open>\<open>atoi\<close> reads back what \<open>sprintf\<close> wrote, whatever follows the terminating NUL.\<close>

lemma is_digit_NUL [simp]: "\<not> is_digit NUL"
  by (simp add: is_digit_def)

lemma digits_head:
  obtains c s where "digits n = c # s" and "\<not> is_space c" and "c \<noteq> CHR ''-''" and "c \<noteq> CHR ''+''"
proof (cases "digits n")
  case (Cons c s)
  then obtain d where "d < 10" "c = char_of (48 + d :: nat)" using digits_chars [of c n] by auto
  with Cons digit_chars [of d] that show thesis by simp
qed simp

lemma atoi_sprintf_d:
  assumes "fits_int v"
  shows "atoi (sprintf_d v @ NUL # rest) = Inr v"
proof (cases "v < 0")
  case True
  moreover have "\<not> is_space CHR ''-''" by (simp add: is_space_def)
  ultimately show ?thesis
    using assms by (simp add: sprintf_d_def atoi_def atoi_digits_digits)
next
  case False
  obtain c s where cs: "digits (nat v) = c # s" "\<not> is_space c" "c \<noteq> CHR ''-''" "c \<noteq> CHR ''+''"
    by (rule digits_head)
  have "atoi_digits 0 (digits (nat v) @ NUL # rest) = Inr v"
    using False by (simp add: atoi_digits_digits)
  with False cs assms show ?thesis by (simp add: sprintf_d_def atoi_def)
qed

section \<open>Fields of four bytes\<close>

text \<open>
  Every number in a message is a field of \<open>sizeof(int)\<close> bytes. \<open>field4\<close> is what the field of a number holds
  when the text fits the buffer it is printed into: the first four bytes of the text and zeros.
\<close>

definition field4 :: "int \<Rightarrow> string" where
  "field4 v = take 4 (sprintf_d v @ replicate 4 NUL)"

lemma length_field4 [simp]: "length (field4 v) = 4"
  by (simp add: field4_def)

lemma digits_length: "n < 10 ^ Suc k \<Longrightarrow> length (digits n) \<le> Suc k"
proof (induction k arbitrary: n)
  case (Suc k)
  show ?case
  proof (cases "n < 10")
    case False
    have "n div 10 < 10 ^ Suc k" using Suc.prems by (simp add: less_mult_imp_div_less)
    from Suc.IH [OF this] False show ?thesis by (simp add: digits.simps [of n])
  qed (simp add: digits.simps [of n])
qed (simp add: digits.simps)

text \<open>The numbers that fit, with a NUL.\<close>

definition short_int :: "int \<Rightarrow> bool" where
  "short_int v \<longleftrightarrow> - 100 < v \<and> v < 1000"

lemma sprintf_d_short: "short_int v \<Longrightarrow> length (sprintf_d v) \<le> 3"
proof -
  assume v: "short_int v"
  show ?thesis
  proof (cases "v < 0")
    case True
    then have "nat (- v) < 10 ^ Suc 1" using v by (simp add: short_int_def)
    with True show ?thesis using digits_length [of "nat (- v)" 1] by (simp add: sprintf_d_def)
  next
    case False
    then have "nat v < 10 ^ Suc 2" using v by (simp add: short_int_def)
    with False show ?thesis using digits_length [of "nat v" 2] by (simp add: sprintf_d_def)
  qed
qed

lemma field4_short:
  assumes "short_int v"
  obtains k where "field4 v = sprintf_d v @ NUL # replicate k NUL"
proof -
  have "field4 v = sprintf_d v @ replicate (4 - length (sprintf_d v)) NUL"
    using sprintf_d_short [OF assms] by (simp add: field4_def)
  moreover have "4 - length (sprintf_d v) = Suc (3 - length (sprintf_d v))"
    using sprintf_d_short [OF assms] by simp
  ultimately show thesis using that by simp
qed

lemma atoi_field4:
  assumes "short_int v"
  shows "atoi (field4 v @ rest) = Inr v"
proof -
  have "fits_int v" using assms by (simp add: short_int_def fits_int_def)
  then show ?thesis
    using field4_short [OF assms] atoi_sprintf_d by (metis append_Cons append_assoc)
qed

text \<open>Numbers of four characters still fit, without a NUL of their own.\<close>

lemma sprintf_d_long:
  assumes "- 1000 < v" and "v < 10000"
  shows "length (sprintf_d v) \<le> 4"
proof (cases "v < 0")
  case True
  then have "nat (- v) < 10 ^ Suc 2" using assms by simp
  with True show ?thesis using digits_length [of "nat (- v)" 2] by (simp add: sprintf_d_def)
next
  case False
  then have "nat v < 10 ^ Suc 3" using assms by simp
  with False show ?thesis using digits_length [of "nat v" 3] by (simp add: sprintf_d_def)
qed

lemma atoi_field4_long:
  assumes "- 1000 < v" and "v < 10000"
  shows "atoi (field4 v @ NUL # rest) = Inr v"
proof -
  have "field4 v = sprintf_d v @ replicate (4 - length (sprintf_d v)) NUL"
    using sprintf_d_long [OF assms] by (simp add: field4_def)
  then have eq: "field4 v @ NUL # rest = sprintf_d v @ NUL # (replicate (4 - length (sprintf_d v)) NUL @ rest)"
    by (simp add: replicate_app_Cons_same)
  show ?thesis unfolding eq using assms by (intro atoi_sprintf_d) (simp add: fits_int_def)
qed

lemma sprintf_into_zeros:
  assumes "length (sprintf_d v) < n"
  shows "sprintf_into (replicate n NUL) (sprintf_d v)
    = Inr (sprintf_d v @ replicate (n - length (sprintf_d v)) NUL)"
proof -
  have "n - length (sprintf_d v) = Suc (n - Suc (length (sprintf_d v)))" using assms by simp
  with assms show ?thesis by (simp add: sprintf_into_def)
qed

lemma sprintf_field4:
  assumes "short_int v" and "4 \<le> n"
  shows "\<exists>b. sprintf_into (replicate n NUL) (sprintf_d v) = Inr b \<and> length b = n \<and> take 4 b = field4 v"
proof -
  have "take 4 (sprintf_d v @ replicate (n - length (sprintf_d v)) NUL) = field4 v"
    using sprintf_d_short [OF assms(1)] assms(2) by (simp add: field4_def)
  moreover have "length (sprintf_d v) < n" using sprintf_d_short [OF assms(1)] assms(2) by simp
  ultimately show ?thesis using sprintf_into_zeros [of v n] by simp
qed

end
