(* ===== verification/Pipes.thy ===== *)
theory Pipes
  imports C_Text
begin

text \<open>
  Named pipes as a process sees them, and the two loops around \<open>read\<close> and \<open>write\<close>:
  \<open>slait\<close> (the same function in \<open>fs/tfs_server.c\<close> and \<open>client/tecnicofs_client_api.c\<close>) and
  \<open>slait_write\<close> (\<open>fs/tfs_server.c\<close>).

  The reading end holds the bytes that are or will be written to it, whether the writers have closed it
  after them, and what the operating system answers to the coming reads: an error number, or how many bytes
  at most (POSIX lets a read be short). Past the end of that list a read gives what was asked for, as far
  as there are bytes. A read of an empty pipe with a writer is \<^const>\<open>Blocked\<close>. The writing end
  holds the bytes sent, and the same for the coming writes.
\<close>

section \<open>Reading and writing\<close>

datatype io_ret = Fails int | Up_to nat

record in_pipe =
  pending :: string
  writers_closed :: bool
  read_rets :: "io_ret list"
  errno :: int

record out_pipe =
  sent :: string
  write_rets :: "io_ret list"

text \<open>\<open>read\<close>: \<^const>\<open>None\<close> for -1, else the bytes; \<open>Up_to k\<close> allows at most \<open>k + 1\<close>.\<close>

definition sys_read :: "nat \<Rightarrow> in_pipe \<Rightarrow> fault + string option \<times> in_pipe" where
  "sys_read n p =
     (case read_rets p of
        Fails e # rs \<Rightarrow> Inr (None, p\<lparr>read_rets := rs, errno := e\<rparr>)
      | rs \<Rightarrow>
          (let k = (case rs of Up_to m # _ \<Rightarrow> min n (Suc m) | _ \<Rightarrow> n) in
           if n = 0 then Inr (Some [], p)
           else if pending p = [] then (if writers_closed p then Inr (Some [], p) else Inl Blocked)
           else Inr (Some (take k (pending p)),
             p\<lparr>pending := drop k (pending p), read_rets := tl rs\<rparr>)))"

text \<open>\<open>write\<close>: the return value.\<close>

definition sys_write :: "string \<Rightarrow> out_pipe \<Rightarrow> int \<times> out_pipe" where
  "sys_write bs p =
     (case write_rets p of
        Fails e # rs \<Rightarrow> (-1, p\<lparr>write_rets := rs\<rparr>)
      | rs \<Rightarrow>
          (let k = (case rs of Up_to m # _ \<Rightarrow> min (length bs) (Suc m) | _ \<Rightarrow> length bs) in
           (int k, p\<lparr>sent := sent p @ take k bs, write_rets := tl rs\<rparr>)))"

lemma sys_read_progress:
  assumes "sys_read n p = Inr (Some bs, q)" and "bs \<noteq> []"
  shows "length (pending q) < length (pending p)" and "length bs \<le> n"
    and "pending p = bs @ pending q"
  using assms
  by (auto simp: sys_read_def Let_def split: list.splits io_ret.splits if_splits)

section \<open>\<open>slait\<close>\<close>

text \<open>\<open>read(fh, buffer + count, len)\<close> stores its bytes at \<open>count\<close>.\<close>

definition store :: "string \<Rightarrow> nat \<Rightarrow> string \<Rightarrow> fault + string" where
  "store buf k bs =
     (if length buf < k + length bs then Inl Memory_Fault
      else Inr (take k buf @ bs @ drop (k + length bs) buf))"

text \<open>The loop, with \<open>written_count\<close> bytes read so far. Each round asks for \<open>len\<close> bytes again.\<close>

function slait_from :: "nat \<Rightarrow> string \<Rightarrow> nat \<Rightarrow> in_pipe \<Rightarrow> fault + int \<times> string \<times> in_pipe" where
  "slait_from written_count buf len p =
     (case sys_read len p of
        Inl e \<Rightarrow> Inl e
      | Inr (None, q) \<Rightarrow> Inr (-1, buf, q)
      | Inr (Some bs, q) \<Rightarrow>
          if bs = [] then Inr (0, buf, q)
          else
            (case store buf written_count bs of
               Inl e \<Rightarrow> Inl e
             | Inr buf' \<Rightarrow>
                 if written_count + length bs \<ge> len then Inr (int (length bs), buf', q)
                 else slait_from (written_count + length bs) buf' len q))"
  by pat_completeness auto
termination
  by (relation "measure (\<lambda>(_, _, _, p). length (pending p))") (auto dest: sys_read_progress(1))

declare slait_from.simps [simp del]

definition slait :: "string \<Rightarrow> nat \<Rightarrow> in_pipe \<Rightarrow> fault + int \<times> string \<times> in_pipe" where
  "slait buf len p = slait_from 0 buf len p"

section \<open>\<open>slait_write\<close>\<close>

text \<open>The loop writes \<open>buffer\<close> from its start in every round.\<close>

function slait_write_from :: "nat \<Rightarrow> string \<Rightarrow> nat \<Rightarrow> out_pipe \<Rightarrow> fault + int \<times> out_pipe" where
  "slait_write_from written_count buf len p =
     (if length buf < len then Inl Memory_Fault
      else
        (let (written, q) = sys_write (take len buf) p in
         if written = -1 then Inr (written, q)
         else if written = 0 then Inr (written, q)
         else if written_count + nat written \<ge> len then Inr (written, q)
         else slait_write_from (written_count + nat written) buf len q))"
  by pat_completeness auto
termination
  by (relation "measure (\<lambda>(c, _, len, _). len - c)")
    (auto simp: sys_write_def Let_def split: list.splits io_ret.splits)

declare slait_write_from.simps [simp del]

definition slait_write :: "string \<Rightarrow> nat \<Rightarrow> out_pipe \<Rightarrow> fault + int \<times> out_pipe" where
  "slait_write buf len p = slait_write_from 0 buf len p"

section \<open>What the loops do when the system gives what is asked for\<close>

lemma sys_read_all:
  assumes "read_rets p = []" and "0 < n" and "n \<le> length (pending p)"
  shows "sys_read n p = Inr (Some (take n (pending p)), p\<lparr>pending := drop n (pending p)\<rparr>)"
  using assms by (auto simp: sys_read_def)

lemma slait_all:
  assumes "read_rets p = []" and "0 < n" and "n \<le> length (pending p)" and "n \<le> length buf"
  shows "slait buf n p
    = Inr (int n, take n (pending p) @ drop n buf, p\<lparr>pending := drop n (pending p)\<rparr>)"
  using assms
  by (auto simp: slait_def slait_from.simps [of 0] sys_read_all store_def min_def)

lemma slait_0: "read_rets p = [] \<Longrightarrow> slait buf 0 p = Inr (0, buf, p)"
  by (simp add: slait_def slait_from.simps [of 0] sys_read_def)

lemma sys_write_all:
  "write_rets p = [] \<Longrightarrow> sys_write bs p = (int (length bs), p\<lparr>sent := sent p @ bs\<rparr>)"
  by (simp add: sys_write_def)

lemma slait_write_all:
  assumes "write_rets p = []" and "n \<le> length buf"
  shows "slait_write buf n p = Inr (int n, p\<lparr>sent := sent p @ take n buf\<rparr>)"
  using assms
  by (simp add: slait_write_def slait_write_from.simps [of 0] sys_write_all min_def)

text \<open>A read of more bytes than will ever come does not return.\<close>

lemma slait_too_long:
  assumes "read_rets p = []" and "\<not> writers_closed p" and "pending p \<noteq> []" and "length (pending p) < n"
    and "n \<le> length buf"
  shows "slait buf n p = Inl Blocked"
proof -
  let ?bs = "pending p" and ?q = "p\<lparr>pending := []\<rparr>"
  have "sys_read n p = Inr (Some ?bs, ?q)" "sys_read n ?q = Inl Blocked"
    using assms(1-4) by (cases p; auto simp: sys_read_def Let_def)+
  then show ?thesis
    using assms(3-5)
    by (simp add: slait_def slait_from.simps [of 0] slait_from.simps [of "length ?bs"] store_def)
qed

end
