(* ===== verification/Client.thy ===== *)
theory Client
  imports Pipes FS_State
begin

text \<open>
  The client library: \<open>client/tecnicofs_client_api.c\<close>. Its static variables are one record;
  the descriptors \<open>fserv\<close> and \<open>fcli\<close> are the pipe to the server and the pipe from it, which are open: a
  client that calls an operation before its first \<open>tfs_mount\<close>, with both descriptors 0, is not modelled.
  The bytes the server will answer are the pending bytes of the latter. The functions have
  the source's names after \<open>client_\<close>, since the server's library has functions of the same names.
  Messages consist of fields: one character for the operation, four bytes for each number and
  40 bytes for each name.
\<close>

abbreviation (input) NAME_SIZE :: nat where "NAME_SIZE \<equiv> 40"
abbreviation (input) sizeof_int :: nat where "sizeof_int \<equiv> 4"

text \<open>Operation codes (\<open>common/common.h\<close>), and \<open>code + '0'\<close> as a character.\<close>

abbreviation (input) TFS_OP_CODE_MOUNT :: nat where "TFS_OP_CODE_MOUNT \<equiv> 1"
abbreviation (input) TFS_OP_CODE_UNMOUNT :: nat where "TFS_OP_CODE_UNMOUNT \<equiv> 2"
abbreviation (input) TFS_OP_CODE_OPEN :: nat where "TFS_OP_CODE_OPEN \<equiv> 3"
abbreviation (input) TFS_OP_CODE_CLOSE :: nat where "TFS_OP_CODE_CLOSE \<equiv> 4"
abbreviation (input) TFS_OP_CODE_WRITE :: nat where "TFS_OP_CODE_WRITE \<equiv> 5"
abbreviation (input) TFS_OP_CODE_READ :: nat where "TFS_OP_CODE_READ \<equiv> 6"
abbreviation (input) TFS_OP_CODE_SHUTDOWN_AFTER_ALL_CLOSED :: nat where
  "TFS_OP_CODE_SHUTDOWN_AFTER_ALL_CLOSED \<equiv> 7"

definition op_char :: "nat \<Rightarrow> char" where
  "op_char code = char_of (code + 48)"

text \<open>
  \<open>os_rets\<close> are the results of the coming calls of \<open>unlink\<close>, \<open>mkfifo\<close>, \<open>open\<close> and
  \<open>close\<close>: negative for a failure (for \<open>unlink\<close>, one with an \<open>errno\<close> other than \<open>ENOENT\<close>), else a
  success; past its end they all succeed.
\<close>

record client =
  to_server :: out_pipe
  from_server :: in_pipe
  session_id :: int
  os_rets :: "int list"

definition os_call :: "client \<Rightarrow> int \<times> client" where
  "os_call c = (case os_rets c of [] \<Rightarrow> (0, c) | r # rs \<Rightarrow> (r, c\<lparr>os_rets := rs\<rparr>))"

text \<open>\<open>while (1) if ((fserv = open(...)) >= 0) break\<close>.\<close>

definition os_retry :: "client \<Rightarrow> client" where
  "os_retry c = c\<lparr>os_rets := tl (dropWhile (\<lambda>r. r < 0) (os_rets c))\<rparr>"

section \<open>Sending and receiving\<close>

definition write_server :: "string \<Rightarrow> client \<Rightarrow> int \<times> client" where
  "write_server msg c = (let (w, p) = sys_write msg (to_server c) in (w, c\<lparr>to_server := p\<rparr>))"

definition read_server :: "string \<Rightarrow> nat \<Rightarrow> client \<Rightarrow> fault + int \<times> string \<times> client" where
  "read_server buf len c = andthen (slait buf len (from_server c)) (\<lambda>(ret, buf', p).
     Inr (ret, buf', c\<lparr>from_server := p\<rparr>))"

text \<open>\<open>sprintf(aux, "%d", v)\<close> into \<open>n\<close> zeroed bytes, of which the message takes the first four.\<close>

definition int_field :: "nat \<Rightarrow> int \<Rightarrow> fault + string" where
  "int_field n v = andthen (sprintf_into (replicate n NUL) (sprintf_d v)) (\<lambda>aux.
     memcpy_from aux sizeof_int)"

section \<open>The operations\<close>

definition client_mount :: "string \<Rightarrow> client \<Rightarrow> fault + int \<times> client" where
  "client_mount client_pipe_path c =
     andthen (memcpy_from client_pipe_path NAME_SIZE) (\<lambda>name.
     let (w, c1) = write_server (op_char TFS_OP_CODE_MOUNT # name) (os_retry c) in
     if w = -1 then Inr (-1, c1)
     else
       let (unlinked, c2) = os_call c1 in
       if unlinked < 0 then Inr (-1, c2)
       else
         let (made, c3) = os_call c2 in
         if made < 0 then Inr (-1, c3)
         else
           let (fcli, c4) = os_call c3 in
           if fcli < 0 then Inr (-1, c4)
           else
             andthen (read_server (replicate (Suc NAME_SIZE) NUL) sizeof_int c4) (\<lambda>(ret, buf, c5).
             if ret = -1 then Inr (-1, c5)
             else andthen (atoi buf) (\<lambda>sid.
               let c6 = c5\<lparr>session_id := sid\<rparr> in
               if sid < 0 then Inr (-1, c6) else Inr (0, c6))))"

definition client_unmount :: "client \<Rightarrow> fault + int \<times> client" where
  "client_unmount c =
     andthen (int_field (Suc sizeof_int) (session_id c)) (\<lambda>sid.
     let (w, c1) = write_server (op_char TFS_OP_CODE_UNMOUNT # sid) c in
     if w < 0 then Inr (-1, c1)
     else
       let (r1, c2) = os_call c1 in
       if r1 = -1 then Inr (-1, c2)
       else
         let (r2, c3) = os_call c2 in
         if r2 = -1 then Inr (-1, c3) else Inr (0, c3))"

definition client_open :: "string \<Rightarrow> int \<Rightarrow> client \<Rightarrow> fault + int \<times> client" where
  "client_open name flgs c =
     andthen (memcpy_from name NAME_SIZE) (\<lambda>filename.
     andthen (int_field sizeof_int (session_id c)) (\<lambda>sid.
     let msg = op_char TFS_OP_CODE_OPEN # sid @ filename @ [char_of ((flgs + 48) mod 256)];
         (w, c1) = write_server msg c in
     if w < int (length msg) then Inr (-1, c1)
     else andthen (read_server (replicate 49 NUL) sizeof_int c1) (\<lambda>(ret, buf, c2).
       andthen (atoi buf) (\<lambda>fhandler. Inr (if fhandler < 0 then -1 else fhandler, c2)))))"

definition client_close :: "int \<Rightarrow> client \<Rightarrow> fault + int \<times> client" where
  "client_close fhandle c =
     andthen (int_field sizeof_int (session_id c)) (\<lambda>sid.
     andthen (int_field sizeof_int fhandle) (\<lambda>fh.
     let (w, c1) = write_server (op_char TFS_OP_CODE_CLOSE # sid @ fh) c in
     if w < 0 then Inr (-1, c1)
     else andthen (read_server (replicate sizeof_int NUL) sizeof_int c1) (\<lambda>(ret, buf, c2).
       andthen (atoi buf) (\<lambda>close. Inr (if close < 0 then -1 else 0, c2)))))"

text \<open>
  The reply is read into a buffer of \<open>len + 14\<close> bytes and with \<open>len\<close> as the length.
\<close>

definition client_write :: "int \<Rightarrow> string \<Rightarrow> nat \<Rightarrow> client \<Rightarrow> fault + int \<times> client" where
  "client_write fhandle buffer len c =
     andthen (int_field 9 (session_id c)) (\<lambda>sid.
     andthen (int_field 9 fhandle) (\<lambda>fh.
     andthen (int_field 9 (int len)) (\<lambda>l.
     andthen (memcpy_from buffer len) (\<lambda>content.
     let (w, c1) = write_server (op_char TFS_OP_CODE_WRITE # sid @ fh @ l @ content) c in
     if w < 0 then Inr (-1, c1)
     else andthen (read_server (replicate (len + 14) NUL) len c1) (\<lambda>(ret, buf, c2).
       if ret = -1 then Inr (-1, c2)
       else andthen (atoi buf) (\<lambda>written. Inr (if written < 0 then -1 else written, c2)))))))"

definition client_read :: "int \<Rightarrow> string \<Rightarrow> nat \<Rightarrow> client \<Rightarrow> fault + int \<times> string \<times> client" where
  "client_read fhandle buffer len c =
     andthen (int_field 9 (session_id c)) (\<lambda>sid.
     andthen (int_field 9 fhandle) (\<lambda>fh.
     andthen (int_field 9 (int len)) (\<lambda>l.
     let (w, c1) = write_server (op_char TFS_OP_CODE_READ # sid @ fh @ l) c in
     andthen (read_server (replicate 14 NUL) sizeof_int c1) (\<lambda>(ret, buf, c2).
     andthen (atoi (take sizeof_int buf @ replicate 5 NUL)) (\<lambda>read_code.
     if read_code < 0 then Inr (-1, buffer, c2)
     else andthen (read_server buffer (nat read_code) c2) (\<lambda>(ret, buffer', c3).
       if ret = -1 then Inr (-1, buffer', c3) else Inr (read_code, buffer', c3)))))))"

definition client_shutdown_after_all_closed :: "client \<Rightarrow> fault + int \<times> client" where
  "client_shutdown_after_all_closed c =
     andthen (int_field sizeof_int (session_id c)) (\<lambda>sid.
     let (w, c1) = write_server (op_char TFS_OP_CODE_SHUTDOWN_AFTER_ALL_CLOSED # sid) c in
     andthen (read_server (replicate sizeof_int NUL) sizeof_int c1) (\<lambda>(ret, buf, c2).
     andthen (atoi buf) (\<lambda>ret_aux. Inr (if ret_aux < 0 then -1 else 0, c2))))"

end
