(* ===== verification/Server_State.thy ===== *)
theory Server_State
  imports Client FS_Sync
begin

text \<open>
  The state of the server (\<open>fs/tfs_server.c\<close>): the session table, the slaves with their
  requests, the pipes, and the helpers both kinds of threads use. A descriptor of a client pipe
  is an integer, and \<open>clients\<close> maps the open ones to their pipes.

  The state is what a thread sees between two steps of \<open>Server_Main\<close> and \<open>Server_Slave\<close>, in which
  the mutexes of the slaves, \<open>counter_mutex\<close> and \<open>read_lock\<close> are locked and unlocked again; only
  \<open>global_mutex\<close> can stay locked, and is a field.
\<close>

abbreviation (input) MAX_SESSIONS :: nat where "MAX_SESSIONS \<equiv> 10"
abbreviation (input) SIZE :: nat where "SIZE \<equiv> 100"

record session_t =
  s_session_id :: int
  s_name :: string
  s_fhandler :: int

text \<open>\<open>to_write\<close> is a heap block; \<^const>\<open>None\<close> is a null or dangling pointer.\<close>

record request_t =
  r_op_code :: int
  r_fcli :: int
  r_fhandler :: int
  r_len :: size_t
  r_flags :: int
  r_name :: string
  r_to_write :: "string option"

record slave_t =
  slave_session_id :: int
  wake_up :: bool
  request :: request_t

datatype session_state_t = FREE_POS | TAKEN_POS

text \<open>
  \<open>closed_pipes\<close> holds the pipes the server has closed with the bytes it wrote to them, which their clients
  can still read. \<open>open_rets\<close> are the results of the coming calls of \<open>open\<close> on the pipe of a client, and
  \<open>reopen_rets\<close> those of \<open>close\<close> and \<open>open\<close> on the server's own pipe.
\<close>

record server =
  sessions :: "nat \<Rightarrow> session_t"
  free_sessions :: "nat \<Rightarrow> session_state_t"
  open_sessions :: int
  slaves :: "nat \<Rightarrow> slave_t"
  global_locked :: bool
  counter_operations :: int
  ops :: ops_state
  fserv :: in_pipe
  clients :: "int \<rightharpoonup> out_pipe"
  open_rets :: "int list"
  reopen_rets :: "int list"
  closed_pipes :: "(int \<times> out_pipe) list"

section \<open>Initialisation\<close>

definition empty_session :: session_t where
  "empty_session = \<lparr>s_session_id = -1, s_name = replicate NAME_SIZE NUL, s_fhandler = -1\<rparr>"

definition init_slave :: "nat \<Rightarrow> slave_t \<Rightarrow> slave_t" where
  "init_slave i sl = sl\<lparr>slave_session_id := int i, wake_up := False,
     request := (request sl)\<lparr>r_op_code := -1, r_fcli := -1, r_fhandler := -1, r_flags := -1,
       r_len := 0, r_name := replicate NAME_SIZE NUL\<rparr>\<rparr>"

definition server_init :: "server \<Rightarrow> server" where
  "server_init s = s\<lparr>open_sessions := 0,
     free_sessions := (\<lambda>i. if i < MAX_SESSIONS then FREE_POS else free_sessions s i),
     sessions := (\<lambda>i. if i < MAX_SESSIONS then empty_session else sessions s i),
     slaves := (\<lambda>i. if i < MAX_SESSIONS then init_slave i (slaves s i) else slaves s i)\<rparr>"

section \<open>Access to the tables\<close>

text \<open>\<open>sessions[session_id]\<close> and \<open>slaves[session_id]\<close> with a number from a message.\<close>

definition slot :: "int \<Rightarrow> fault + nat" where
  "slot i = (if 0 \<le> i \<and> i < int MAX_SESSIONS then Inr (nat i) else Inl Memory_Fault)"

definition update_session :: "nat \<Rightarrow> (session_t \<Rightarrow> session_t) \<Rightarrow> server \<Rightarrow> server" where
  "update_session i f s = s\<lparr>sessions := (sessions s)(i := f (sessions s i))\<rparr>"

definition update_request :: "nat \<Rightarrow> (request_t \<Rightarrow> request_t) \<Rightarrow> server \<Rightarrow> server" where
  "update_request i f s = s\<lparr>slaves := (slaves s)(i := (slaves s i)\<lparr>request := f (request (slaves s i))\<rparr>)\<rparr>"

text \<open>The main thread hands a request to a slave and wakes it up.\<close>

definition hand_over :: "nat \<Rightarrow> (request_t \<Rightarrow> request_t) \<Rightarrow> server \<Rightarrow> server" where
  "hand_over i f s = s\<lparr>slaves := (slaves s)(i := (slaves s i)
     \<lparr>request := f (request (slaves s i)), wake_up := True\<rparr>)\<rparr>"

definition increment_counter :: "server \<Rightarrow> server" where
  "increment_counter s = s\<lparr>counter_operations := counter_operations s + 1\<rparr>"

text \<open>
  Locking \<open>global_mutex\<close>. It is only ever left locked by the main thread, so a second lock is a
  deadlock of that thread with itself, and one of a slave waits for ever; the argument is which.
\<close>

definition lock_global :: "fault \<Rightarrow> server \<Rightarrow> fault + server" where
  "lock_global w s = (if global_locked s then Inl w else Inr (s\<lparr>global_locked := True\<rparr>))"

definition unlock_global :: "server \<Rightarrow> server" where
  "unlock_global s = s\<lparr>global_locked := False\<rparr>"

section \<open>Pipes\<close>

definition read_fserv :: "string \<Rightarrow> nat \<Rightarrow> server \<Rightarrow> fault + int \<times> string \<times> server" where
  "read_fserv buf len s = andthen (slait buf len (fserv s)) (\<lambda>(ret, buf', p).
     Inr (ret, buf', s\<lparr>fserv := p\<rparr>))"

text \<open>\<open>slait_write(fcli, buf, len)\<close> and a plain \<open>write\<close>; on a closed descriptor they give -1.\<close>

definition reply :: "int \<Rightarrow> string \<Rightarrow> nat \<Rightarrow> server \<Rightarrow> fault + int \<times> server" where
  "reply fcli buf len s =
     (case clients s fcli of
        None \<Rightarrow> Inr (-1, s)
      | Some p \<Rightarrow> andthen (slait_write buf len p) (\<lambda>(ret, q).
          Inr (ret, s\<lparr>clients := (clients s)(fcli \<mapsto> q)\<rparr>)))"

definition plain_write :: "int \<Rightarrow> string \<Rightarrow> server \<Rightarrow> int \<times> server" where
  "plain_write fcli bs s =
     (case clients s fcli of
        None \<Rightarrow> (-1, s)
      | Some p \<Rightarrow> (let (ret, q) = sys_write bs p in (ret, s\<lparr>clients := (clients s)(fcli \<mapsto> q)\<rparr>)))"

text \<open>\<open>close(fcli)\<close>, which fails on a descriptor that is not open.\<close>

definition close_client :: "int \<Rightarrow> server \<Rightarrow> int \<times> server" where
  "close_client fcli s =
     (case clients s fcli of
        None \<Rightarrow> (-1, s)
      | Some p \<Rightarrow> (0, s\<lparr>clients := (clients s)(fcli := None), closed_pipes := (fcli, p) # closed_pipes s\<rparr>))"

text \<open>
  \<open>slait_open\<close> opens the pipe of a client for writing, again and again until it succeeds. The new
  descriptor is what the system answers; when it never succeeds the loop never ends.
\<close>

fun first_open :: "int list \<Rightarrow> (int \<times> int list) option" where
  "first_open [] = None"
| "first_open (r # rs) = (if r = -1 then first_open rs else Some (r, rs))"

definition slait_open :: "server \<Rightarrow> fault + int \<times> server" where
  "slait_open s =
     (case first_open (open_rets s) of
        None \<Rightarrow> Inl Blocked
      | Some (fcli, rs) \<Rightarrow> Inr (fcli, s\<lparr>open_rets := rs,
          clients := (clients s)(fcli \<mapsto> \<lparr>sent = [], write_rets = []\<rparr>)\<rparr>))"

text \<open>\<open>sprintf(buf, "%d", v)\<close> into \<open>n\<close> zeroed bytes.\<close>

definition int_text :: "nat \<Rightarrow> int \<Rightarrow> fault + string" where
  "int_text n v = sprintf_into (replicate n NUL) (sprintf_d v)"

section \<open>Positions in the session table\<close>

text \<open>
  \<open>find_free_pos\<close> after its lock: the first free position is taken and the mutex released. When
  there is none the function returns at once, with the mutex locked.
\<close>

definition take_free_pos :: "server \<Rightarrow> int \<times> server" where
  "take_free_pos s =
     (case first_index (\<lambda>i. free_sessions s i = FREE_POS) 0 MAX_SESSIONS of
        None \<Rightarrow> (-1, s)
      | Some i \<Rightarrow>
          (int i, unlock_global (s\<lparr>free_sessions := (free_sessions s)(i := TAKEN_POS)\<rparr>)))"

definition find_free_pos :: "server \<Rightarrow> fault + int \<times> server" where
  "find_free_pos s = andthen (lock_global Self_Deadlock s) (\<lambda>s1. Inr (take_free_pos s1))"

text \<open>The end of a session: a slave frees its position, under the mutex.\<close>

definition release_pos :: "int \<Rightarrow> server \<Rightarrow> int \<times> server" where
  "release_pos i s = (0, unlock_global (s\<lparr>free_sessions := (free_sessions s)(nat i := FREE_POS)\<rparr>))"

definition free_pos :: "nat \<Rightarrow> server \<Rightarrow> fault + server" where
  "free_pos i s = andthen (lock_global Blocked s) (\<lambda>s1. Inr (snd (release_pos (int i) s1)))"

lemma not_FREE_POS [simp]: "x \<noteq> FREE_POS \<longleftrightarrow> x = TAKEN_POS"
  by (cases x) auto

lemma not_TAKEN_POS [simp]: "x \<noteq> TAKEN_POS \<longleftrightarrow> x = FREE_POS"
  by (cases x) auto

interpretation session_table: alloc_table_release
  "\<lambda>s i. free_sessions s i = TAKEN_POS" MAX_SESSIONS take_free_pos release_pos
proof unfold_locales
  fix s :: server
  assume "\<forall>i<MAX_SESSIONS. free_sessions s i = TAKEN_POS"
  then have "first_index (\<lambda>i. free_sessions s i = FREE_POS) 0 MAX_SESSIONS = None"
    by (simp add: first_index_eq_None)
  then show "fst (take_free_pos s) = -1 \<and>
      (\<forall>j. (free_sessions (snd (take_free_pos s)) j = TAKEN_POS) = (free_sessions s j = TAKEN_POS))"
    by (simp add: take_free_pos_def)
next
  fix s :: server and i
  assume "i < MAX_SESSIONS" and "free_sessions s i \<noteq> TAKEN_POS"
    and "\<forall>j<i. free_sessions s j = TAKEN_POS"
  then have "first_index (\<lambda>i. free_sessions s i = FREE_POS) 0 MAX_SESSIONS = Some i"
    by (simp add: first_index_eq_Some)
  then show "fst (take_free_pos s) = int i \<and> (\<forall>j.
      (free_sessions (snd (take_free_pos s)) j = TAKEN_POS) = (j = i \<or> free_sessions s j = TAKEN_POS))"
    by (simp add: take_free_pos_def unlock_global_def)
next
  fix s :: server and i
  assume "i < MAX_SESSIONS" and "free_sessions s i = TAKEN_POS"
  then show "fst (release_pos (int i) s) = 0 \<and> (\<forall>j.
      (free_sessions (snd (release_pos (int i) s)) j = TAKEN_POS)
        = (j \<noteq> i \<and> free_sessions s j = TAKEN_POS))"
    by (simp add: release_pos_def unlock_global_def)
qed

section \<open>Errors\<close>

text \<open>\<open>erase_client\<close>, called by \<open>handle_error\<close>; nothing calls the latter.\<close>

definition erase_client :: "nat \<Rightarrow> server \<Rightarrow> fault + server" where
  "erase_client i s =
     andthen (lock_global Blocked (update_session i (\<lambda>_. empty_session) s)) (\<lambda>s1.
       Inr (unlock_global (s1\<lparr>open_sessions := open_sessions s1 - 1,
         free_sessions := (free_sessions s1)(i := FREE_POS)\<rparr>)))"

abbreviation (input) ENOENT :: int where "ENOENT \<equiv> 2"
abbreviation (input) EINTR :: int where "EINTR \<equiv> 4"
abbreviation (input) EBADF :: int where "EBADF \<equiv> 9"
abbreviation (input) EPIPE :: int where "EPIPE \<equiv> 32"

definition handle_error :: "int \<Rightarrow> nat \<Rightarrow> server \<Rightarrow> fault + int \<times> server" where
  "handle_error error i s =
     (if error = EBADF then andthen (erase_client i s) (\<lambda>s1. Inr (-1, s1))
      else if error = EPIPE then andthen (erase_client i s) (\<lambda>s1. Inr (0, s1))
      else if error = ENOENT \<or> error = EINTR then slait_open s
      else Inr (-1, s))"

end
