(* ===== verification/Server_Main.thy ===== *)
theory Server_Main
  imports Server_State
begin

text \<open>
  The main thread of the server (\<open>fs/tfs_server.c\<close>): it reads requests from the server's pipe, parses
  them and hands them to the slave of the session. One handler per request, and \<open>serve\<close>, one round of the
  loop in \<open>main\<close>.

  \<open>garbage\<close> is what an uninitialised local array of 100 bytes holds.
\<close>

definition exit_if_failed :: "int \<Rightarrow> fault + unit" where
  "exit_if_failed ret = (if ret = -1 then Inl (Exited 1) else Inr ())"

section \<open>Mount and unmount\<close>

definition tfs_handle_mount :: "server \<Rightarrow> fault + server" where
  "tfs_handle_mount s =
     andthen (read_fserv (replicate NAME_SIZE NUL) NAME_SIZE s) (\<lambda>(ret, name, s1).
     andthen (exit_if_failed ret) (\<lambda>_.
     andthen (slait_open s1) (\<lambda>(fcli, s2).
     if open_sessions s2 = int MAX_SESSIONS then
       andthen (int_text sizeof_int (-1)) (\<lambda>txt.
       andthen (reply fcli txt sizeof_int s2) (\<lambda>(w, s3).
         let (r, s4) = close_client fcli s3 in
         if r = -1 then Inl (Exited 1) else Inr s4))
     else
       andthen (find_free_pos s2) (\<lambda>(free_session_id, s3).
       if free_session_id = -1 then
         andthen (int_text sizeof_int free_session_id) (\<lambda>txt.
         andthen (reply fcli txt sizeof_int s3) (\<lambda>(w, s4). Inr s4))
       else
         andthen (slot free_session_id) (\<lambda>i.
         let s4 = hand_over i (\<lambda>q. q\<lparr>r_op_code := int TFS_OP_CODE_MOUNT, r_fcli := fcli\<rparr>) s3 in
         andthen (lock_global Self_Deadlock s4) (\<lambda>s5.
           Inr (unlock_global (s5\<lparr>open_sessions := open_sessions s5 + 1\<rparr>))))))))"

definition tfs_handle_unmount :: "server \<Rightarrow> fault + server" where
  "tfs_handle_unmount s =
     andthen (read_fserv (replicate SIZE NUL) sizeof_int s) (\<lambda>(ret, buf, s1).
     andthen (atoi (take sizeof_int buf @ replicate (SIZE - sizeof_int) NUL)) (\<lambda>session_id.
     if open_sessions s1 = 0 \<or> session_id = -1 then Inr s1
     else
       andthen (slot session_id) (\<lambda>i.
       let s2 = hand_over i (\<lambda>q. q\<lparr>r_op_code := int TFS_OP_CODE_UNMOUNT\<rparr>) s1 in
       andthen (lock_global Self_Deadlock s2) (\<lambda>s3.
         Inr (unlock_global (s3\<lparr>open_sessions := open_sessions s3 - 1\<rparr>))))))"

section \<open>Operations on files\<close>

definition tfs_handle_read :: "server \<Rightarrow> fault + server" where
  "tfs_handle_read s =
     andthen (read_fserv (replicate SIZE NUL) sizeof_int s) (\<lambda>(ret, buf, s1).
     andthen (atoi buf) (\<lambda>session_id.
     andthen (read_fserv buf sizeof_int s1) (\<lambda>(ret, buf, s2).
     andthen (atoi buf) (\<lambda>fhandle.
     andthen (slot session_id) (\<lambda>i.
     let fcli = s_fhandler (sessions s2 i) in
     if fhandle = -1 then andthen (reply fcli buf sizeof_int s2) (\<lambda>(w, s3). Inr s3)
     else
       andthen (read_fserv buf sizeof_int s2) (\<lambda>(ret, buf, s3).
       andthen (atoi buf) (\<lambda>len.
         Inr (increment_counter (hand_over i (\<lambda>q. q\<lparr>r_op_code := int TFS_OP_CODE_READ,
           r_fhandler := fhandle, r_len := of_int len\<rparr>) s3))))))))) "

text \<open>\<open>memset(buffer, '\0', len)\<close> for an array of \<open>SIZE\<close> bytes.\<close>

definition clear_prefix :: "string \<Rightarrow> size_t \<Rightarrow> fault + string" where
  "clear_prefix buf len =
     (if length buf < unat len then Inl Memory_Fault
      else Inr (replicate (unat len) NUL @ drop (unat len) buf))"

definition tfs_handle_write :: "string \<Rightarrow> server \<Rightarrow> fault + server" where
  "tfs_handle_write garbage s =
     andthen (read_fserv garbage sizeof_int s) (\<lambda>(ret, buf, s1).
     andthen (exit_if_failed ret) (\<lambda>_.
     andthen (atoi buf) (\<lambda>session_id.
     andthen (read_fserv buf sizeof_int s1) (\<lambda>(ret, buf, s2).
     andthen (exit_if_failed ret) (\<lambda>_.
     andthen (atoi buf) (\<lambda>fhandle.
     andthen (slot session_id) (\<lambda>i.
     let fcli = s_fhandler (sessions s2 i) in
     if fhandle = -1 then andthen (reply fcli buf sizeof_int s2) (\<lambda>(w, s3). Inr s3)
     else
       andthen (read_fserv buf sizeof_int s2) (\<lambda>(ret, buf, s3).
       andthen (exit_if_failed ret) (\<lambda>_.
       andthen (atoi buf) (\<lambda>n.
       let len = of_int n :: size_t in
       andthen (clear_prefix buf len) (\<lambda>buf.
       andthen (read_fserv buf (unat len) s3) (\<lambda>(ret, buf, s4).
       andthen (exit_if_failed ret) (\<lambda>_.
       andthen (memcpy_from buf (unat len)) (\<lambda>content.
         Inr (increment_counter (hand_over i (\<lambda>q. q\<lparr>r_op_code := int TFS_OP_CODE_WRITE,
           r_fhandler := fhandle, r_len := len, r_to_write := Some content\<rparr>) s4))))))))))))))))"

definition tfs_handle_close :: "string \<Rightarrow> server \<Rightarrow> fault + server" where
  "tfs_handle_close garbage s =
     andthen (read_fserv garbage sizeof_int s) (\<lambda>(ret, buf, s1).
     andthen (exit_if_failed ret) (\<lambda>_.
     andthen (atoi buf) (\<lambda>session_id.
     andthen (read_fserv buf sizeof_int s1) (\<lambda>(ret, buf, s2).
     andthen (exit_if_failed ret) (\<lambda>_.
     andthen (atoi buf) (\<lambda>fhandle.
     andthen (slot session_id) (\<lambda>i.
     let fcli = s_fhandler (sessions s2 i) in
     if fhandle = -1 then andthen (reply fcli buf sizeof_int s2) (\<lambda>(w, s3). Inr s3)
     else Inr (increment_counter (hand_over i (\<lambda>q. q\<lparr>r_op_code := int TFS_OP_CODE_CLOSE,
       r_fhandler := fhandle\<rparr>) s2)))))))))"

text \<open>Of the four bytes copied for the flags the message holds one; the others are still zero.\<close>

definition tfs_handle_open :: "server \<Rightarrow> fault + server" where
  "tfs_handle_open s =
     andthen (read_fserv (replicate SIZE NUL) 45 s) (\<lambda>(ret, buf, s1).
     andthen (exit_if_failed ret) (\<lambda>_.
     andthen (atoi (take sizeof_int buf @ replicate (SIZE - sizeof_int) NUL)) (\<lambda>session_id.
     let name = take NAME_SIZE (drop sizeof_int buf) in
     andthen (atoi (take sizeof_int (drop (sizeof_int + NAME_SIZE) buf)
       @ replicate (SIZE - sizeof_int) NUL)) (\<lambda>flgs.
     andthen (slot session_id) (\<lambda>i.
       Inr (increment_counter (hand_over i (\<lambda>q. q\<lparr>r_op_code := int TFS_OP_CODE_OPEN,
         r_name := name, r_flags := flgs\<rparr>) s1)))))))"

definition tfs_handle_shutdown_after_all_close :: "server \<Rightarrow> fault + server" where
  "tfs_handle_shutdown_after_all_close s =
     andthen (read_fserv (replicate SIZE NUL) sizeof_int s) (\<lambda>(ret, buf, s1).
     andthen (atoi (take sizeof_int buf @ replicate (SIZE - sizeof_int) NUL)) (\<lambda>session_id.
     andthen (slot session_id) (\<lambda>i.
       Inr (hand_over i (\<lambda>q. q\<lparr>r_op_code := int TFS_OP_CODE_SHUTDOWN_AFTER_ALL_CLOSED\<rparr>) s1))))"

section \<open>The loop\<close>

definition reopen_call :: "server \<Rightarrow> int \<times> server" where
  "reopen_call s = (case reopen_rets s of [] \<Rightarrow> (0, s) | r # rs \<Rightarrow> (r, s\<lparr>reopen_rets := rs\<rparr>))"

definition dispatch :: "string \<Rightarrow> int \<Rightarrow> server \<Rightarrow> fault + server" where
  "dispatch garbage command s =
     (if command = int TFS_OP_CODE_MOUNT then tfs_handle_mount s
      else if command = int TFS_OP_CODE_UNMOUNT then tfs_handle_unmount s
      else if command = int TFS_OP_CODE_OPEN then tfs_handle_open s
      else if command = int TFS_OP_CODE_CLOSE then tfs_handle_close garbage s
      else if command = int TFS_OP_CODE_WRITE then tfs_handle_write garbage s
      else if command = int TFS_OP_CODE_READ then tfs_handle_read s
      else if command = int TFS_OP_CODE_SHUTDOWN_AFTER_ALL_CLOSED
        then tfs_handle_shutdown_after_all_close s
      else Inr s)"

text \<open>
  One round of the loop in \<open>main\<close>. At the end of the input the pipe is closed and opened again, for the
  next client; \<open>main\<close> returning -1 ends the process.
\<close>

definition serve :: "string \<Rightarrow> server \<Rightarrow> fault + server" where
  "serve garbage s =
     andthen (read_fserv (replicate SIZE NUL) 1 s) (\<lambda>(n, buf, s1).
     if n = 0 then
       let (closed, s2) = reopen_call s1 in
       if closed = -1 then Inl (Exited (-1))
       else
         let (opened, s3) = reopen_call s2 in
         if opened = -1 then Inl (Exited (-1))
         else Inr (s3\<lparr>fserv := (fserv s3)\<lparr>writers_closed := False\<rparr>\<rparr>)
     else if n = -1 \<and> errno (fserv s1) = EBADF then
       let (opened, s2) = reopen_call s1 in Inr s2
     else if n = -1 then Inl (Exited (-1))
     else andthen (atoi buf) (\<lambda>command. dispatch garbage command s1))"

end
