(* ===== verification/Server_Slave.thy ===== *)
theory Server_Slave
  imports Server_Main
begin

text \<open>
  The slaves (\<open>fs/tfs_server.c\<close>): each carries out the requests of one session, one at a time. A
  function per request, \<open>solve\<close>, which picks it, and the step relation of the whole server: the main
  thread and the ten slaves in any order. The argument \<open>i\<close> is the slave's position in \<open>slaves\<close>; the code
  uses \<open>slave->session_id\<close> to find its session, which \<open>server_init\<close> sets to that position and nothing
  changes after it (\<open>table_inv\<close> in \<open>World\<close>).
\<close>

section \<open>Requests\<close>

text \<open>\<open>strlen\<close> of the request's name needs a NUL in its 40 bytes.\<close>

definition tfs_thread_mount :: "nat \<Rightarrow> server \<Rightarrow> fault + server" where
  "tfs_thread_mount i s =
     andthen (lock_global Blocked s) (\<lambda>s0.
     let s1 = unlock_global s0;
         q = request (slaves s1 i);
         nm = cstr (r_name q);
         s2 = update_session i (\<lambda>_. \<lparr>s_session_id = slave_session_id (slaves s1 i),
           s_name = take NAME_SIZE (nm @ replicate NAME_SIZE NUL), s_fhandler = r_fcli q\<rparr>) s1 in
     if NUL \<notin> set (r_name q) then Inl Memory_Fault
     else
       andthen (int_text SIZE (slave_session_id (slaves s2 i))) (\<lambda>txt.
       andthen (reply (r_fcli q) txt sizeof_int s2) (\<lambda>(w, s3). Inr s3)))"

definition tfs_thread_unmount :: "nat \<Rightarrow> server \<Rightarrow> fault + server" where
  "tfs_thread_unmount i s =
     (let (r, s1) = close_client (s_fhandler (sessions s i)) s in
      if r = -1 then Inl (Exited 1)
      else free_pos i (update_session i (\<lambda>_. empty_session) s1))"

definition tfs_thread_open :: "nat \<Rightarrow> server \<Rightarrow> fault + server" where
  "tfs_thread_open i s =
     (let q = request (slaves s i); aux = r_name q @ replicate (SIZE - NAME_SIZE) NUL in
      andthen (tfs_open (Some aux) (r_flags q) (ops s)) (\<lambda>(tfs_fhandler, f).
      let s1 = s\<lparr>ops := f\<rparr> in
      andthen (int_text SIZE tfs_fhandler) (\<lambda>txt.
      andthen (reply (s_fhandler (sessions s1 i)) txt sizeof_int s1) (\<lambda>(w, s2). Inr s2))))"

definition tfs_thread_close :: "nat \<Rightarrow> server \<Rightarrow> fault + server" where
  "tfs_thread_close i s =
     andthen (tfs_close (r_fhandler (request (slaves s i))) (ops s)) (\<lambda>(fclose, f).
     let s1 = s\<lparr>ops := f\<rparr>; fcli = s_fhandler (sessions s1 i) in
     andthen (int_text SIZE fclose) (\<lambda>txt.
     let (w, s2) = plain_write fcli (take sizeof_int txt) s1 in Inr s2))"

text \<open>
  The output array has as many bytes as the request asks for; an array of \<open>2 ^ 63\<close> bytes or more does
  not exist. The first \<open>buffer\<close> sent for a handle of -1 is uninitialised.
\<close>

definition tfs_thread_read :: "string \<Rightarrow> nat \<Rightarrow> server \<Rightarrow> fault + server" where
  "tfs_thread_read garbage i s =
     (let q = request (slaves s i); fcli = s_fhandler (sessions s i) in
      if r_fhandler q = -1 then andthen (reply fcli garbage sizeof_int s) (\<lambda>(w, s1). Inr s1)
      else if unat (r_len q) \<ge> 2 ^ 63 then Inl Memory_Fault
      else
        andthen (tfs_read (r_fhandler q) (replicate (unat (r_len q)) NUL) (r_len q) (ops s))
          (\<lambda>(read_bytes, out, f).
        let s1 = s\<lparr>ops := f\<rparr> in
        andthen (int_text SIZE read_bytes) (\<lambda>txt.
        if read_bytes < 0 then
          let (w, s2) = plain_write fcli (take sizeof_int txt) s1 in Inr s2
        else
          andthen (memcpy_from out (nat read_bytes)) (\<lambda>bytes.
          andthen (reply fcli (take sizeof_int txt @ bytes) (sizeof_int + nat read_bytes) s1)
            (\<lambda>(w, s2). Inr s2)))))"

text \<open>The request's heap block is copied and freed.\<close>

definition tfs_thread_write :: "nat \<Rightarrow> server \<Rightarrow> fault + server" where
  "tfs_thread_write i s =
     (let q = request (slaves s i) in
      case r_to_write q of
        None \<Rightarrow> Inl Memory_Fault
      | Some src \<Rightarrow>
          andthen (memcpy_from src (unat (r_len q))) (\<lambda>content.
          let s0 = update_request i (\<lambda>q. q\<lparr>r_to_write := None\<rparr>) s;
              fcli = s_fhandler (sessions s0 i) in
          if r_fhandler q = -1 then
            andthen (reply fcli (replicate SIZE NUL) sizeof_int s0) (\<lambda>(w, s1). Inr s1)
          else
            andthen (tfs_write (r_fhandler q) content (r_len q) (ops s0)) (\<lambda>(written, f).
            let s1 = s0\<lparr>ops := f\<rparr> in
            if written < 0 then Inl (Exited 1)
            else
              andthen (int_text SIZE written) (\<lambda>txt.
              andthen (reply fcli txt sizeof_int s1) (\<lambda>(w, s2). Inr s2)))))"

text \<open>
  \<open>tfs_thread_shutdown_after_all_close\<close> calls \<open>tfs_destroy_after_all_closed\<close>, which announces the
  shutdown and then waits until no file is open: two steps. After the second (where it returns 0) the slave
  answers, twice, and ends the process.
\<close>

definition shutdown_begin :: "server \<Rightarrow> server" where
  "shutdown_begin s = s\<lparr>ops := (ops s)\<lparr>called_destroy := DESTROY\<rparr>\<rparr>"

definition shutdown_end :: "nat \<Rightarrow> server \<Rightarrow> fault + server" where
  "shutdown_end i s =
     (if open_files (ops s) \<noteq> 0 then Inl Blocked
      else
        let (_, f) = tfs_destroy (ops s); ret = 0 :: int; s1 = s\<lparr>ops := f\<rparr>; fcli = s_fhandler (sessions s1 i) in
        if ret = -1 then Inl (Exited 1)
        else
        andthen (int_text SIZE ret) (\<lambda>txt.
        andthen (reply fcli txt sizeof_int s1) (\<lambda>(w, s2).
        let (write_size, s3) = plain_write fcli (take sizeof_int txt) s2 in
        if write_size = -1 then Inl (Exited 1) else Inr s3)))"

section \<open>The loop of a slave\<close>

definition solve :: "string \<Rightarrow> nat \<Rightarrow> server \<Rightarrow> fault + server" where
  "solve garbage i s =
     (let command = r_op_code (request (slaves s i)) in
      if command = int TFS_OP_CODE_MOUNT then tfs_thread_mount i s
      else if command = int TFS_OP_CODE_UNMOUNT then tfs_thread_unmount i s
      else if command = int TFS_OP_CODE_OPEN then tfs_thread_open i s
      else if command = int TFS_OP_CODE_CLOSE then tfs_thread_close i s
      else if command = int TFS_OP_CODE_WRITE then tfs_thread_write i s
      else if command = int TFS_OP_CODE_READ then tfs_thread_read garbage i s
      else if command = int TFS_OP_CODE_SHUTDOWN_AFTER_ALL_CLOSED then Inr (shutdown_begin s)
      else Inr s)"

text \<open>\<open>while (!wake_up) wait; wake_up = 0\<close>.\<close>

definition take_request :: "nat \<Rightarrow> server \<Rightarrow> server option" where
  "take_request i s =
     (if wake_up (slaves s i)
      then Some (s\<lparr>slaves := (slaves s)(i := (slaves s i)\<lparr>wake_up := False\<rparr>)\<rparr>) else None)"

text \<open>Where a slave is: waiting for a request, carrying one out, or waiting for the last close.\<close>

datatype slave_pc = Waiting | Solving | Closing

record world =
  srv :: server
  slave_at :: "nat \<Rightarrow> slave_pc"
  halted :: bool

text \<open>
  A round of the main thread, a slave that takes its request, and a slave that carries it out. What the
  uninitialised arrays hold is arbitrary. A thread whose code does not return makes no step, except that
  the end of the process is one.
\<close>

inductive world_step :: "world \<Rightarrow> world \<Rightarrow> bool" where
  main_round: "\<not> halted w \<Longrightarrow> serve garbage (srv w) = Inr s \<Longrightarrow> world_step w (w\<lparr>srv := s\<rparr>)"
| wake: "\<not> halted w \<Longrightarrow> i < MAX_SESSIONS \<Longrightarrow> slave_at w i = Waiting \<Longrightarrow> take_request i (srv w) = Some s
    \<Longrightarrow> world_step w (w\<lparr>srv := s, slave_at := (slave_at w)(i := Solving)\<rparr>)"
| carry_out: "\<not> halted w \<Longrightarrow> slave_at w i = Solving \<Longrightarrow> solve garbage i (srv w) = Inr s
    \<Longrightarrow> world_step w (w\<lparr>srv := s, slave_at := (slave_at w)(i :=
      if r_op_code (request (slaves (srv w) i)) = int TFS_OP_CODE_SHUTDOWN_AFTER_ALL_CLOSED
      then Closing else Waiting)\<rparr>)"
| last_close: "\<not> halted w \<Longrightarrow> slave_at w i = Closing \<Longrightarrow> shutdown_end i (srv w) = Inr s
    \<Longrightarrow> world_step w (w\<lparr>srv := s, halted := True\<rparr>)"
| last_close_exit: "\<not> halted w \<Longrightarrow> slave_at w i = Closing \<Longrightarrow> shutdown_end i (srv w) = Inl (Exited n)
    \<Longrightarrow> world_step w (w\<lparr>halted := True\<rparr>)"
| main_exit: "\<not> halted w \<Longrightarrow> serve garbage (srv w) = Inl (Exited n) \<Longrightarrow> world_step w (w\<lparr>halted := True\<rparr>)"
| slave_exit: "\<not> halted w \<Longrightarrow> slave_at w i = Solving \<Longrightarrow> solve garbage i (srv w) = Inl (Exited n)
    \<Longrightarrow> world_step w (w\<lparr>halted := True\<rparr>)"

end
