(* ===== verification/Protocol.thy ===== *)
theory Protocol
  imports Server_Slave
begin

text \<open>
  The messages between client and server: what the client library sends, how the server's handlers
  take it apart, and what the client makes of the answer.
\<close>

section \<open>Messages\<close>

text \<open>What each operation of the client sends.\<close>

definition mount_msg :: "string \<Rightarrow> string" where
  "mount_msg nm = op_char TFS_OP_CODE_MOUNT # nm"

definition unmount_msg :: "int \<Rightarrow> string" where
  "unmount_msg sid = op_char TFS_OP_CODE_UNMOUNT # field4 sid"

definition open_msg :: "int \<Rightarrow> string \<Rightarrow> int \<Rightarrow> string" where
  "open_msg sid nm flgs = op_char TFS_OP_CODE_OPEN # field4 sid @ nm @ [char_of ((flgs + 48) mod 256)]"

definition close_msg :: "int \<Rightarrow> int \<Rightarrow> string" where
  "close_msg sid fh = op_char TFS_OP_CODE_CLOSE # field4 sid @ field4 fh"

definition write_msg :: "int \<Rightarrow> int \<Rightarrow> string \<Rightarrow> string" where
  "write_msg sid fh d = op_char TFS_OP_CODE_WRITE # field4 sid @ field4 fh @ field4 (int (length d)) @ d"

definition read_msg :: "int \<Rightarrow> int \<Rightarrow> int \<Rightarrow> string" where
  "read_msg sid fh len = op_char TFS_OP_CODE_READ # field4 sid @ field4 fh @ field4 len"

definition shutdown_msg :: "int \<Rightarrow> string" where
  "shutdown_msg sid = op_char TFS_OP_CODE_SHUTDOWN_AFTER_ALL_CLOSED # field4 sid"

section \<open>The client's side\<close>

text \<open>The pipes of the client take and give all that is asked for.\<close>

definition client_ready :: "client \<Rightarrow> bool" where
  "client_ready c \<longleftrightarrow> write_rets (to_server c) = [] \<and> read_rets (from_server c) = []"

definition with_answer :: "string \<Rightarrow> client \<Rightarrow> client" where
  "with_answer bs c = c\<lparr>from_server := (from_server c)\<lparr>pending := pending (from_server c) @ bs\<rparr>\<rparr>"

text \<open>The client after it has sent \<open>msg\<close> and received \<open>n\<close> bytes.\<close>

definition after_call :: "string \<Rightarrow> nat \<Rightarrow> client \<Rightarrow> client" where
  "after_call msg n c = c\<lparr>to_server := (to_server c)\<lparr>sent := sent (to_server c) @ msg\<rparr>,
     from_server := (from_server c)\<lparr>pending := drop n (pending (from_server c))\<rparr>\<rparr>"

lemma int_field_short:
  assumes "short_int v" and "4 \<le> n"
  shows "int_field n v = Inr (field4 v)"
  using sprintf_field4 [OF assms] assms(2) by (auto simp: int_field_def memcpy_from_def)

lemma int_field_long:
  assumes "- 1000 < v" and "v < 10000" and "5 \<le> n"
  shows "int_field n v = Inr (field4 v)"
proof -
  have "length (sprintf_d v) \<le> 4" by (rule sprintf_d_long [OF assms(1,2)])
  with assms(3) sprintf_into_zeros [of v n] show ?thesis
    by (simp add: int_field_def memcpy_from_def field4_def)
qed

lemma write_server_ready:
  "client_ready c \<Longrightarrow> write_server msg c
    = (int (length msg), c\<lparr>to_server := (to_server c)\<lparr>sent := sent (to_server c) @ msg\<rparr>\<rparr>)"
  by (simp add: write_server_def client_ready_def sys_write_all)

lemma read_server_ready:
  assumes "read_rets (from_server c) = []" and "0 < n" and "n \<le> length (pending (from_server c))"
    and "n \<le> length buf"
  shows "read_server buf n c = Inr (int n, take n (pending (from_server c)) @ drop n buf,
    c\<lparr>from_server := (from_server c)\<lparr>pending := drop n (pending (from_server c))\<rparr>\<rparr>)"
  using assms by (simp add: read_server_def slait_all)

lemmas client_simps = Let_def client_ready_def read_server_ready write_server_ready int_field_short

lemma client_open_eq:
  assumes "client_ready c" and "short_int (session_id c)" and "length nm = NAME_SIZE"
    and "pending (from_server c) = field4 r @ rest" and "short_int r"
  shows "client_open nm flgs c
    = Inr (if r < 0 then -1 else r, after_call (open_msg (session_id c) nm flgs) 4 c)"
  using assms atoi_field4 [OF assms(5)]
  by (simp add: client_open_def memcpy_from_def client_simps after_call_def open_msg_def)

lemma client_close_sends:
  assumes "client_ready c" and "short_int (session_id c)" and "short_int fh"
  shows "client_close fh c = andthen (read_server (replicate sizeof_int NUL) sizeof_int
      (after_call (close_msg (session_id c) fh) 0 c)) (\<lambda>(ret, buf, c2).
    andthen (atoi buf) (\<lambda>close. Inr (if close < 0 then -1 else 0, c2)))"
  using assms by (simp add: client_close_def client_simps after_call_def close_msg_def)

lemma client_close_eq:
  assumes "client_ready c" and "short_int (session_id c)" and "short_int fh"
    and "pending (from_server c) = field4 r @ rest" and "short_int r"
  shows "client_close fh c
    = Inr (if r < 0 then -1 else 0, after_call (close_msg (session_id c) fh) 4 c)"
  using assms atoi_field4 [OF assms(5), of "[]"]
  by (simp add: client_close_def client_simps after_call_def close_msg_def)

text \<open>A read takes the number of bytes, then as many bytes.\<close>

lemma client_read_sends:
  assumes "client_ready c" and "short_int (session_id c)" and "short_int fh" and "len < 10000"
    and "pending (from_server c) = field4 r @ rest" and "- 1000 < r" and "r < 10000"
  shows "client_read fh buffer len c =
    (let c1 = after_call (read_msg (session_id c) fh (int len)) 4 c in
     if r < 0 then Inr (-1, buffer, c1)
     else andthen (read_server buffer (nat r) c1) (\<lambda>(ret, b, c3).
       if ret = -1 then Inr (-1, b, c3) else Inr (r, b, c3)))"
proof -
  have "atoi (field4 r @ replicate 5 NUL) = Inr r"
    using atoi_field4_long [OF assms(6,7), of "replicate 4 NUL"] by (simp flip: replicate_Suc)
  with assms int_field_long [of "int len" 9] show ?thesis
    by (simp add: client_read_def client_simps after_call_def read_msg_def)
qed

lemma client_read_error:
  assumes "client_ready c" and "short_int (session_id c)" and "short_int fh" and "len < 10000"
    and "pending (from_server c) = field4 r @ rest" and "- 1000 < r" and "r < 0"
  shows "client_read fh buffer len c
    = Inr (-1, buffer, after_call (read_msg (session_id c) fh (int len)) 4 c)"
  using assms by (simp add: client_read_sends)

lemma client_read_eq:
  assumes "client_ready c" and "short_int (session_id c)" and "short_int fh" and "len < 10000"
    and "pending (from_server c) = field4 (int (length bytes)) @ bytes @ rest"
    and "length bytes < 10000" and "length bytes \<le> length buffer"
  shows "client_read fh buffer len c = Inr (int (length bytes), bytes @ drop (length bytes) buffer,
    after_call (read_msg (session_id c) fh (int len)) (4 + length bytes) c)"
proof -
  let ?c1 = "after_call (read_msg (session_id c) fh (int len)) 4 c"
  have "read_server buffer (length bytes) ?c1
      = Inr (int (length bytes), bytes @ drop (length bytes) buffer,
          after_call (read_msg (session_id c) fh (int len)) (4 + length bytes) c)"
  proof (cases "bytes = []")
    case True
    with assms(1) show ?thesis
      by (simp add: read_server_def after_call_def client_ready_def slait_0)
  next
    case False
    have "read_server buffer (length bytes) ?c1
      = Inr (int (length bytes), take (length bytes) (pending (from_server ?c1)) @ drop (length bytes) buffer,
          ?c1\<lparr>from_server := (from_server ?c1)\<lparr>pending := drop (length bytes) (pending (from_server ?c1))\<rparr>\<rparr>)"
      using False assms(1,5,7) by (intro read_server_ready) (simp_all add: after_call_def client_ready_def)
    then show ?thesis using assms(5) by (simp add: after_call_def)
  qed
  with client_read_sends [OF assms(1-5)] assms(6) show ?thesis by (simp add: Let_def)
qed

text \<open>
  The answer to a write is four bytes, but the client reads as many as it wrote, into a larger buffer:
  only for a length of 4 does it read the answer.
\<close>

lemma client_write_sends:
  assumes "client_ready c" and "short_int (session_id c)" and "short_int fh"
    and "length d < 10000"
  shows "client_write fh d (length d) c =
    andthen (read_server (replicate (length d + 14) NUL) (length d)
      (after_call (write_msg (session_id c) fh d) 0 c)) (\<lambda>(ret, buf, c2).
       if ret = -1 then Inr (-1, c2)
       else andthen (atoi buf) (\<lambda>written. Inr (if written < 0 then -1 else written, c2)))"
  using assms int_field_long [of "int (length d)" 9]
  by (simp add: client_write_def client_simps after_call_def write_msg_def memcpy_from_def)

lemma client_write_4:
  assumes "client_ready c" and "short_int (session_id c)" and "short_int fh" and "length d = 4"
    and "pending (from_server c) = field4 r @ rest" and "short_int r"
  shows "client_write fh d 4 c
    = Inr (if r < 0 then -1 else r, after_call (write_msg (session_id c) fh d) 4 c)"
proof -
  let ?c1 = "after_call (write_msg (session_id c) fh d) 0 c"
  have "read_server (replicate 18 NUL) 4 ?c1 = Inr (4, field4 r @ replicate 14 NUL,
      after_call (write_msg (session_id c) fh d) 4 c)"
    using assms(1,5) by (subst read_server_ready) (simp_all add: after_call_def client_ready_def)
  with client_write_sends [OF assms(1-3), of d] assms(4) atoi_field4 [OF assms(6)] show ?thesis
    by simp
qed

lemma client_mount_eq:
  assumes "client_ready c" and "os_rets c = []" and "length nm = NAME_SIZE"
    and "pending (from_server c) = field4 r @ rest" and "short_int r"
  shows "client_mount nm c
    = Inr (if r < 0 then -1 else 0, (after_call (mount_msg nm) 4 c)\<lparr>session_id := r\<rparr>)"
  using assms atoi_field4 [OF assms(5)]
  by (simp add: client_mount_def memcpy_from_def os_retry_def os_call_def client_simps after_call_def
      mount_msg_def)

lemma client_unmount_eq:
  assumes "client_ready c" and "os_rets c = []" and "short_int (session_id c)"
  shows "client_unmount c = Inr (0, after_call (unmount_msg (session_id c)) 0 c)"
  using assms by (simp add: client_unmount_def os_call_def client_simps after_call_def unmount_msg_def)

lemma client_shutdown_eq:
  assumes "client_ready c" and "short_int (session_id c)"
    and "pending (from_server c) = field4 r @ rest" and "short_int r"
  shows "client_shutdown_after_all_closed c
    = Inr (if r < 0 then -1 else 0, after_call (shutdown_msg (session_id c)) 4 c)"
  using assms atoi_field4 [OF assms(4), of "[]"]
  by (simp add: client_shutdown_after_all_closed_def client_simps after_call_def shutdown_msg_def)

section \<open>The server's side: parsing\<close>

definition input :: "string \<Rightarrow> server \<Rightarrow> bool" where
  "input bs s \<longleftrightarrow> read_rets (fserv s) = [] \<and> pending (fserv s) = bs"

definition left :: "string \<Rightarrow> server \<Rightarrow> server" where
  "left bs s = s\<lparr>fserv := (fserv s)\<lparr>pending := bs\<rparr>\<rparr>"

lemma left_simps [simp]:
  "sessions (left bs s) = sessions s" "free_sessions (left bs s) = free_sessions s"
  "open_sessions (left bs s) = open_sessions s" "slaves (left bs s) = slaves s"
  "global_locked (left bs s) = global_locked s" "ops (left bs s) = ops s"
  "clients (left bs s) = clients s" "open_rets (left bs s) = open_rets s"
  "closed_pipes (left bs s) = closed_pipes s"
  "left cs (left bs s) = left cs s"
  by (simp_all add: left_def)

lemma input_left [simp]: "input bs (left cs s) \<longleftrightarrow> read_rets (fserv s) = [] \<and> cs = bs"
  by (auto simp: input_def left_def)

lemma input_idle: "input bs s \<Longrightarrow> read_rets (fserv s) = []"
  by (simp add: input_def)

lemma read_fserv_input:
  assumes "input (bs @ rest) s" and "length bs = n" and "0 < n" and "n \<le> length buf"
  shows "read_fserv buf n s = Inr (int n, bs @ drop n buf, left rest s)"
  using assms by (simp add: input_def read_fserv_def slait_all left_def)

lemma atoi_op_char:
  assumes "c < 10"
  shows "atoi (op_char c # NUL # rest) = Inr (int c)"
proof -
  have "sprintf_d (int c) = [op_char c]"
    using assms by (simp add: sprintf_d_def op_char_def digits.simps [of c] add.commute)
  moreover have "fits_int (int c)" using assms by (simp add: fits_int_def)
  ultimately show ?thesis using atoi_sprintf_d [of "int c" rest] by simp
qed

lemma field4_digit:
  assumes "n < 10"
  shows "field4 (int n) = op_char n # replicate 3 NUL"
proof -
  have "digits n = [op_char n]"
    using assms by (simp add: digits.simps [of n] op_char_def add.commute)
  then show ?thesis by (simp add: field4_def sprintf_d_def numeral_eq_Suc)
qed

lemma flag_char:
  assumes "0 \<le> flgs" and "flgs < 10"
  shows "char_of ((flgs + 48) mod 256) = op_char (nat flgs)"
proof -
  have "(of_char (op_char (nat flgs)) :: nat) = nat flgs + 48"
    using assms by (simp add: op_char_def)
  then have "(of_char (op_char (nat flgs)) :: int) = flgs + 48"
    using assms(1) by (metis nat_0_le of_nat_add of_nat_numeral of_nat_of_char)
  moreover have "(of_char (char_of ((flgs + 48) mod 256)) :: int) = flgs + 48"
    using assms by (simp only: of_char_of mod_mod_trivial) simp
  ultimately show ?thesis by (metis of_char_eq_iff)
qed

text \<open>The first byte selects the handler.\<close>

lemma serve_dispatch:
  assumes "input (op_char c # bs) s" and "c < 10"
  shows "serve g s = dispatch g (int c) (left bs s)"
proof -
  have "read_fserv (replicate SIZE NUL) 1 s = Inr (1, op_char c # replicate 99 NUL, left bs s)"
    using read_fserv_input [of "[op_char c]" bs s 1 "replicate SIZE NUL"] assms(1) by simp
  moreover have "atoi (op_char c # replicate 99 NUL) = Inr (int c)"
    using atoi_op_char [OF assms(2), of "replicate 98 NUL"] by (simp flip: replicate_Suc)
  ultimately show ?thesis by (simp add: serve_def)
qed

lemma slot_int: "i < MAX_SESSIONS \<Longrightarrow> slot (int i) = Inr i"
  by (simp add: slot_def)

lemma short_slot: "i < MAX_SESSIONS \<Longrightarrow> short_int (int i)"
  by (simp add: short_int_def)

lemma atoi_field4_zeros:
  assumes "- 1000 < v" and "v < 10000" and "0 < n"
  shows "atoi (field4 v @ replicate n NUL) = Inr v"
proof -
  obtain k where "n = Suc k" using assms(3) by (cases n) auto
  with atoi_field4_long [OF assms(1,2), of "replicate k NUL"] show ?thesis by simp
qed

text \<open>What each message makes of the server: the request of the slave, and the bytes left.\<close>

lemma serve_open:
  assumes "input (open_msg (int i) nm flgs @ rest) s" and "i < MAX_SESSIONS"
    and "length nm = NAME_SIZE" and "0 \<le> flgs" and "flgs < 10"
  shows "serve g s = Inr (increment_counter (hand_over i (\<lambda>q. q\<lparr>r_op_code := 3, r_name := nm,
    r_flags := flgs\<rparr>) (left rest s)))"
proof -
  let ?bs = "field4 (int i) @ nm @ [op_char (nat flgs)]"
  have "char_of ((flgs + 48) mod 256) = op_char (nat flgs)"
    by (rule flag_char [OF assms(4,5)])
  then have msg: "open_msg (int i) nm flgs @ rest = op_char 3 # ?bs @ rest" by (simp add: open_msg_def)
  have read: "read_fserv (replicate SIZE NUL) 45 (left (?bs @ rest) s)
      = Inr (45, ?bs @ replicate 55 NUL, left rest s)"
    using read_fserv_input [of ?bs rest "left (?bs @ rest) s" 45 "replicate SIZE NUL"]
      assms(1,3) input_idle [OF assms(1)] by simp
  have flags: "atoi (op_char (nat flgs) # replicate (99::nat) NUL) = Inr flgs"
    using atoi_op_char [of "nat flgs" "replicate 98 NUL"] assms(4,5) by (simp flip: replicate_Suc)
  have flags': "take 4 (op_char (nat flgs) # replicate 55 NUL) @ replicate 96 NUL
      = op_char (nat flgs) # replicate (99::nat) NUL"
    by (simp add: take_Cons' flip: replicate_add)
  have "tfs_handle_open (left (?bs @ rest) s) = Inr (increment_counter (hand_over i
      (\<lambda>q. q\<lparr>r_op_code := 3, r_name := nm, r_flags := flgs\<rparr>) (left rest s)))"
    using read atoi_field4 [OF short_slot [OF assms(2)]] assms(2,3) flags flags'
    by (simp add: tfs_handle_open_def exit_if_failed_def slot_int Let_def)
  with serve_dispatch [of 3 "?bs @ rest" s g] assms(1) show ?thesis
    by (simp add: msg dispatch_def)
qed

lemma serve_close:
  assumes "input (close_msg (int i) fh @ rest) s" and "i < MAX_SESSIONS" and "short_int fh"
    and "fh \<noteq> -1" and "length g = SIZE"
  shows "serve g s = Inr (increment_counter (hand_over i (\<lambda>q. q\<lparr>r_op_code := 4, r_fhandler := fh\<rparr>)
    (left rest s)))"
proof -
  let ?f = "field4 (int i)" and ?h = "field4 fh"
  note idle = input_idle [OF assms(1)]
  have "tfs_handle_close g (left (?f @ ?h @ rest) s) = Inr (increment_counter (hand_over i
      (\<lambda>q. q\<lparr>r_op_code := 4, r_fhandler := fh\<rparr>) (left rest s)))"
    using assms idle atoi_field4 [OF short_slot [OF assms(2)]] atoi_field4 [OF assms(3)]
    by (simp add: tfs_handle_close_def exit_if_failed_def slot_int Let_def
        read_fserv_input [of ?f "?h @ rest"] read_fserv_input [of ?h rest])
  with serve_dispatch [of 4 "?f @ ?h @ rest" s g] assms(1) show ?thesis
    by (simp add: close_msg_def dispatch_def)
qed

lemma serve_read:
  assumes "input (read_msg (int i) fh (int len) @ rest) s" and "i < MAX_SESSIONS" and "short_int fh"
    and "fh \<noteq> -1" and "len < 10000"
  shows "serve g s = Inr (increment_counter (hand_over i (\<lambda>q. q\<lparr>r_op_code := 6, r_fhandler := fh,
    r_len := of_nat len\<rparr>) (left rest s)))"
proof -
  let ?f = "field4 (int i)" and ?h = "field4 fh" and ?l = "field4 (int len)"
  note idle = input_idle [OF assms(1)]
  have "tfs_handle_read (left (?f @ ?h @ ?l @ rest) s) = Inr (increment_counter (hand_over i
      (\<lambda>q. q\<lparr>r_op_code := 6, r_fhandler := fh, r_len := of_nat len\<rparr>) (left rest s)))"
    using assms idle atoi_field4 [OF short_slot [OF assms(2)]] atoi_field4 [OF assms(3)]
      atoi_field4_zeros [of "int len" 96]
    by (simp add: tfs_handle_read_def slot_int Let_def read_fserv_input [of ?f "?h @ ?l @ rest"]
        read_fserv_input [of ?h "?l @ rest"] read_fserv_input [of ?l rest])
  with serve_dispatch [of 6 "?f @ ?h @ ?l @ rest" s g] assms(1) show ?thesis
    by (simp add: read_msg_def dispatch_def)
qed

lemma serve_write:
  assumes "input (write_msg (int i) fh d @ rest) s" and "i < MAX_SESSIONS" and "short_int fh"
    and "fh \<noteq> -1" and "0 < length d" and "length d \<le> SIZE" and "length g = SIZE"
  shows "serve g s = Inr (increment_counter (hand_over i (\<lambda>q. q\<lparr>r_op_code := 5, r_fhandler := fh,
    r_len := of_nat (length d), r_to_write := Some d\<rparr>) (left rest s)))"
proof -
  let ?f = "field4 (int i)" and ?h = "field4 fh" and ?l = "field4 (int (length d))"
  note idle = input_idle [OF assms(1)]
  have len: "unat (of_nat (length d) :: size_t) = length d"
    using assms(6) by (intro unat_of_length) simp
  have short: "short_int (int (length d))" using assms(6) by (simp add: short_int_def)
  have "tfs_handle_write g (left (?f @ ?h @ ?l @ d @ rest) s) = Inr (increment_counter (hand_over i
      (\<lambda>q. q\<lparr>r_op_code := 5, r_fhandler := fh, r_len := of_nat (length d), r_to_write := Some d\<rparr>) (left rest s)))"
    using assms idle atoi_field4 [OF short_slot [OF assms(2)]] atoi_field4 [OF assms(3)]
      atoi_field4 [OF short]
    by (simp add: tfs_handle_write_def exit_if_failed_def slot_int Let_def clear_prefix_def len
        memcpy_from_def read_fserv_input [of ?f "?h @ ?l @ d @ rest"]
        read_fserv_input [of ?h "?l @ d @ rest"] read_fserv_input [of ?l "d @ rest"]
        read_fserv_input [of d rest])
  with serve_dispatch [of 5 "?f @ ?h @ ?l @ d @ rest" s g] assms(1) show ?thesis
    by (simp add: write_msg_def dispatch_def)
qed

lemma handle_unmount_eq:
  assumes "input (field4 (int i) @ rest) s" and "i < MAX_SESSIONS" and "open_sessions s \<noteq> 0"
    and "\<not> global_locked s"
  shows "tfs_handle_unmount s = Inr ((hand_over i (\<lambda>q. q\<lparr>r_op_code := 2\<rparr>) (left rest s))
    \<lparr>open_sessions := open_sessions s - 1, global_locked := False\<rparr>)"
  using assms atoi_field4 [OF short_slot [OF assms(2)]]
  by (simp add: tfs_handle_unmount_def slot_int Let_def read_fserv_input [of "field4 (int i)" rest]
      lock_global_def unlock_global_def hand_over_def)

lemma serve_unmount:
  assumes "input (unmount_msg (int i) @ rest) s" and "i < MAX_SESSIONS" and "open_sessions s \<noteq> 0"
    and "\<not> global_locked s"
  shows "serve g s = Inr ((hand_over i (\<lambda>q. q\<lparr>r_op_code := 2\<rparr>) (left rest s))
    \<lparr>open_sessions := open_sessions s - 1, global_locked := False\<rparr>)"
  using assms handle_unmount_eq [of i rest "left (field4 (int i) @ rest) s"] input_idle [OF assms(1)]
    serve_dispatch [of 2 "field4 (int i) @ rest" s g]
  by (simp add: unmount_msg_def dispatch_def)

lemma unmount_locked:
  assumes "input (unmount_msg (int i)) s" and "i < MAX_SESSIONS" and "open_sessions s \<noteq> 0"
    and "global_locked s"
  shows "serve g s = Inl Self_Deadlock"
proof -
  let ?f = "field4 (int i)"
  have "tfs_handle_unmount (left ?f s) = Inl Self_Deadlock"
    using assms input_idle [OF assms(1)] atoi_field4 [OF short_slot [OF assms(2)]]
    by (simp add: tfs_handle_unmount_def slot_int Let_def read_fserv_input [of ?f "[]"]
        lock_global_def hand_over_def)
  with serve_dispatch [of 2 ?f s g] assms(1) show ?thesis
    by (simp add: unmount_msg_def dispatch_def)
qed

lemma serve_shutdown:
  assumes "input (shutdown_msg (int i) @ rest) s" and "i < MAX_SESSIONS"
  shows "serve g s = Inr (hand_over i (\<lambda>q. q\<lparr>r_op_code := 7\<rparr>) (left rest s))"
proof -
  let ?f = "field4 (int i)"
  have "tfs_handle_shutdown_after_all_close (left (?f @ rest) s)
      = Inr (hand_over i (\<lambda>q. q\<lparr>r_op_code := 7\<rparr>) (left rest s))"
    using assms input_idle [OF assms(1)] atoi_field4 [OF short_slot [OF assms(2)]]
    by (simp add: tfs_handle_shutdown_after_all_close_def slot_int read_fserv_input [of ?f rest])
  with serve_dispatch [of 7 "?f @ rest" s g] assms(1) show ?thesis
    by (simp add: shutdown_msg_def dispatch_def)
qed

text \<open>The state of the server after the name of a mount has been read and the client's pipe opened.\<close>

definition mounting :: "int \<Rightarrow> int list \<Rightarrow> server \<Rightarrow> server" where
  "mounting fd rs s = s\<lparr>open_rets := rs, clients := (clients s)(fd \<mapsto> \<lparr>sent = [], write_rets = []\<rparr>)\<rparr>"

lemma serve_mount_start:
  assumes "input (mount_msg nm @ rest) s" and "length nm = NAME_SIZE"
    and "first_open (open_rets s) = Some (fd, rs)"
  shows "serve g s = (let s2 = mounting fd rs (left rest s) in
    if open_sessions s2 = int MAX_SESSIONS then
      andthen (int_text sizeof_int (-1)) (\<lambda>txt.
      andthen (reply fd txt sizeof_int s2) (\<lambda>(w, s3).
        let (r, s4) = close_client fd s3 in
        if r = -1 then Inl (Exited 1) else Inr s4))
    else
      andthen (find_free_pos s2) (\<lambda>(free_session_id, s3).
      if free_session_id = -1 then
        andthen (int_text sizeof_int free_session_id) (\<lambda>txt.
        andthen (reply fd txt sizeof_int s3) (\<lambda>(w, s4). Inr s4))
      else
        andthen (slot free_session_id) (\<lambda>i.
        let s4 = hand_over i (\<lambda>q. q\<lparr>r_op_code := int TFS_OP_CODE_MOUNT, r_fcli := fd\<rparr>) s3 in
        andthen (lock_global Self_Deadlock s4) (\<lambda>s5.
          Inr (unlock_global (s5\<lparr>open_sessions := open_sessions s5 + 1\<rparr>)))))) "
proof -
  have "serve g s = tfs_handle_mount (left (nm @ rest) s)"
    using serve_dispatch [of 1 "nm @ rest" s g] assms(1) by (simp add: mount_msg_def dispatch_def)
  then show ?thesis
    using assms input_idle [OF assms(1)]
    by (simp add: tfs_handle_mount_def read_fserv_input [of nm rest] exit_if_failed_def slait_open_def
        mounting_def Let_def)
qed

lemma serve_mount:
  assumes "input (mount_msg nm @ rest) s" and "length nm = NAME_SIZE"
    and "first_open (open_rets s) = Some (fd, rs)" and "open_sessions s \<noteq> int MAX_SESSIONS"
    and "\<not> global_locked s" and "i < MAX_SESSIONS" and "free_sessions s i = FREE_POS"
    and "\<forall>j<i. free_sessions s j = TAKEN_POS"
  shows "serve g s = Inr ((hand_over i (\<lambda>q. q\<lparr>r_op_code := 1, r_fcli := fd\<rparr>)
      (mounting fd rs (left rest s)))\<lparr>free_sessions := (free_sessions s)(i := TAKEN_POS),
      open_sessions := open_sessions s + 1, global_locked := False\<rparr>)"
proof -
  have "first_index (\<lambda>i. free_sessions s i = FREE_POS) 0 MAX_SESSIONS = Some i"
    using assms(6-8) by (simp add: first_index_eq_Some)
  then show ?thesis
    using assms(4-6) unfolding serve_mount_start [OF assms(1-3)]
    by (simp add: find_free_pos_def take_free_pos_def lock_global_def unlock_global_def mounting_def
        Let_def slot_int hand_over_def)
qed

section \<open>The server's side: answers\<close>

definition answer :: "int \<Rightarrow> string \<Rightarrow> server \<Rightarrow> server" where
  "answer fd bs s = s\<lparr>clients := (clients s)(fd \<mapsto>
     (the (clients s fd))\<lparr>sent := sent (the (clients s fd)) @ bs\<rparr>)\<rparr>"

definition fd_ready :: "int \<Rightarrow> server \<Rightarrow> bool" where
  "fd_ready fd s \<longleftrightarrow> (\<exists>p. clients s fd = Some p \<and> write_rets p = [])"

lemma reply_ready:
  assumes "fd_ready fd s" and "n \<le> length buf"
  shows "reply fd buf n s = Inr (int n, answer fd (take n buf) s)"
  using assms by (auto simp: fd_ready_def reply_def slait_write_all answer_def)

lemma plain_write_ready:
  assumes "fd_ready fd s"
  shows "plain_write fd bs s = (int (length bs), answer fd bs s)"
  using assms by (auto simp: fd_ready_def plain_write_def sys_write_all answer_def)

lemma int_text_field:
  assumes "- 1000 < v" and "v < 10000" and "5 \<le> n"
  obtains b where "int_text n v = Inr b" and "length b = n" and "take 4 b = field4 v"
proof (rule that)
  have "length (sprintf_d v) \<le> 4" by (rule sprintf_d_long [OF assms(1,2)])
  then show "int_text n v = Inr (sprintf_d v @ replicate (n - length (sprintf_d v)) NUL)"
    "length (sprintf_d v @ replicate (n - length (sprintf_d v)) NUL) = n"
    "take 4 (sprintf_d v @ replicate (n - length (sprintf_d v)) NUL) = field4 v"
    using assms(3) sprintf_into_zeros [of v n] by (simp_all add: int_text_def field4_def)
qed

lemma solve_open:
  assumes "r_op_code (request (slaves s i)) = 3" and "s_fhandler (sessions s i) = fd" and "fd_ready fd s"
    and "tfs_open (Some (r_name (request (slaves s i)) @ replicate 60 NUL)) (r_flags (request (slaves s i))) (ops s)
      = Inr (r, f)" and "- 1000 < r" and "r < 10000"
  shows "solve g i s = Inr (answer fd (field4 r) (s\<lparr>ops := f\<rparr>))"
proof -
  obtain b where b: "int_text SIZE r = Inr b" "length b = SIZE" "take 4 b = field4 r"
    by (rule int_text_field [OF assms(5,6), of SIZE]) simp
  have "fd_ready fd (s\<lparr>ops := f\<rparr>)" using assms(3) by (simp add: fd_ready_def)
  with assms b show ?thesis
    by (simp add: solve_def tfs_thread_open_def Let_def reply_ready)
qed

lemma solve_close:
  assumes "r_op_code (request (slaves s i)) = 4" and "s_fhandler (sessions s i) = fd" and "fd_ready fd s"
    and "tfs_close (r_fhandler (request (slaves s i))) (ops s) = Inr (r, f)" and "- 1000 < r" and "r < 10000"
  shows "solve g i s = Inr (answer fd (field4 r) (s\<lparr>ops := f\<rparr>))"
proof -
  obtain b where b: "int_text SIZE r = Inr b" "length b = SIZE" "take 4 b = field4 r"
    by (rule int_text_field [OF assms(5,6), of SIZE]) simp
  have "fd_ready fd (s\<lparr>ops := f\<rparr>)" using assms(3) by (simp add: fd_ready_def)
  with assms b show ?thesis
    by (simp add: solve_def tfs_thread_close_def Let_def plain_write_ready)
qed

lemma solve_write:
  assumes "r_op_code (request (slaves s i)) = 5" and "s_fhandler (sessions s i) = fd" and "fd_ready fd s"
    and "r_fhandler (request (slaves s i)) = fh" and "fh \<noteq> -1"
    and "r_to_write (request (slaves s i)) = Some d" and "unat (r_len (request (slaves s i))) = length d"
    and "tfs_write fh d (r_len (request (slaves s i))) (ops s) = Inr (r, f)"
    and "0 \<le> r" and "r < 10000"
  shows "solve g i s = Inr (answer fd (field4 r)
    ((update_request i (\<lambda>q. q\<lparr>r_to_write := None\<rparr>) s)\<lparr>ops := f\<rparr>))"
proof -
  obtain b where b: "int_text SIZE r = Inr b" "length b = SIZE" "take 4 b = field4 r"
    by (rule int_text_field [of r SIZE]) (use assms(9,10) in simp_all)
  let ?s0 = "update_request i (\<lambda>q. q\<lparr>r_to_write := None\<rparr>) s"
  have "fd_ready fd (?s0\<lparr>ops := f\<rparr>)" "ops ?s0 = ops s" "sessions ?s0 = sessions s"
    using assms(3) by (simp_all add: fd_ready_def update_request_def)
  with assms b show ?thesis
    by (simp add: solve_def tfs_thread_write_def Let_def reply_ready memcpy_from_def)
qed

lemma solve_read:
  assumes "r_op_code (request (slaves s i)) = 6" and "s_fhandler (sessions s i) = fd" and "fd_ready fd s"
    and "r_fhandler (request (slaves s i)) = fh" and "fh \<noteq> -1"
    and "r_len (request (slaves s i)) = of_nat len" and "len < 10000"
    and "tfs_read fh (replicate len NUL) (of_nat len) (ops s) = Inr (int (length bytes), bytes @ rest, f)"
    and "length bytes < 10000"
  shows "solve g i s = Inr (answer fd (field4 (int (length bytes)) @ bytes) (s\<lparr>ops := f\<rparr>))"
proof -
  obtain b where b: "int_text SIZE (int (length bytes)) = Inr b" "length b = SIZE"
      "take 4 b = field4 (int (length bytes))"
    by (rule int_text_field [of "int (length bytes)" SIZE]) (use assms(9) in simp_all)
  have ready: "fd_ready fd (s\<lparr>ops := f\<rparr>)" using assms(3) by (simp add: fd_ready_def)
  have len: "unat (of_nat len :: size_t) = len" using assms(7) by (intro unat_of_length) simp
  have "reply fd (field4 (int (length bytes)) @ bytes) (4 + length bytes) (s\<lparr>ops := f\<rparr>)
      = Inr (int (4 + length bytes), answer fd (field4 (int (length bytes)) @ bytes) (s\<lparr>ops := f\<rparr>))"
    using reply_ready [OF ready, of "4 + length bytes" "field4 (int (length bytes)) @ bytes"] by simp
  with assms b len show ?thesis
    by (simp add: solve_def tfs_thread_read_def Let_def memcpy_from_def)
qed

end
