(* ===== verification/Remote.thy ===== *)
theory Remote
  imports Protocol FS_Properties
begin

text \<open>
  Whole requests: a client function sends its message, the main thread takes it, the slave of the session
  carries it out, and the client function returns what the answer says.
\<close>

section \<open>One request\<close>

definition deliver :: "string \<Rightarrow> server \<Rightarrow> server" where
  "deliver msg s = s\<lparr>fserv := (fserv s)\<lparr>pending := pending (fserv s) @ msg\<rparr>\<rparr>"

text \<open>The main thread's round, then slave \<open>i\<close> taking its request and carrying it out.\<close>

definition round_trip :: "string \<Rightarrow> nat \<Rightarrow> server \<Rightarrow> fault + server" where
  "round_trip garbage i s = andthen (serve garbage s) (\<lambda>s1.
     case take_request i s1 of None \<Rightarrow> Inl Blocked | Some s2 \<Rightarrow> solve garbage i s2)"

text \<open>Client \<open>c\<close> has session \<open>i\<close> of the server, which answers it on descriptor \<open>fd\<close>.\<close>

definition session_of :: "nat \<Rightarrow> int \<Rightarrow> client \<Rightarrow> server \<Rightarrow> bool" where
  "session_of i fd c s \<longleftrightarrow> i < MAX_SESSIONS \<and> session_id c = int i \<and> client_ready c
     \<and> free_sessions s i = TAKEN_POS \<and> s_fhandler (sessions s i) = fd
     \<and> slave_session_id (slaves s i) = int i \<and> fd_ready fd s"

definition sent_to :: "int \<Rightarrow> server \<Rightarrow> string" where
  "sent_to fd s = (case clients s fd of None \<Rightarrow> [] | Some p \<Rightarrow> sent p)"

text \<open>The server after the main thread and the slave have taken a request.\<close>

definition requested :: "nat \<Rightarrow> (request_t \<Rightarrow> request_t) \<Rightarrow> server \<Rightarrow> server" where
  "requested i f s = s\<lparr>slaves := (slaves s)(i := (slaves s i)
     \<lparr>request := f (request (slaves s i)), wake_up := False\<rparr>)\<rparr>"

lemma take_hand_over:
  "take_request i (increment_counter (hand_over i f s)) = Some (requested i f (increment_counter s))"
  "take_request i (hand_over i f s) = Some (requested i f s)"
  by (simp_all add: take_request_def hand_over_def increment_counter_def requested_def)

lemma requested_simps [simp]:
  "sessions (requested i f s) = sessions s" "free_sessions (requested i f s) = free_sessions s"
  "clients (requested i f s) = clients s" "ops (requested i f s) = ops s"
  "fserv (requested i f s) = fserv s" "global_locked (requested i f s) = global_locked s"
  "open_sessions (requested i f s) = open_sessions s" "closed_pipes (requested i f s) = closed_pipes s"
  "request (slaves (requested i f s) i) = f (request (slaves s i))"
  "slave_session_id (slaves (requested i f s) j) = slave_session_id (slaves s j)"
  by (simp_all add: requested_def)

lemma counter_simps [simp]:
  "sessions (increment_counter s) = sessions s" "free_sessions (increment_counter s) = free_sessions s"
  "clients (increment_counter s) = clients s" "ops (increment_counter s) = ops s"
  "fserv (increment_counter s) = fserv s" "slaves (increment_counter s) = slaves s"
  "global_locked (increment_counter s) = global_locked s"
  "open_sessions (increment_counter s) = open_sessions s"
  by (simp_all add: increment_counter_def)

lemma deliver_input: "input [] s \<Longrightarrow> input msg (deliver msg s)"
  by (simp add: input_def deliver_def)

lemma deliver_simps [simp]:
  "sessions (deliver m s) = sessions s" "free_sessions (deliver m s) = free_sessions s"
  "clients (deliver m s) = clients s" "ops (deliver m s) = ops s" "slaves (deliver m s) = slaves s"
  "global_locked (deliver m s) = global_locked s" "open_sessions (deliver m s) = open_sessions s"
  "open_rets (deliver m s) = open_rets s" "read_rets (fserv (deliver m s)) = read_rets (fserv s)"
  by (simp_all add: deliver_def)

text \<open>What the server is after a request whose answer is \<open>bs\<close>.\<close>

definition answered :: "nat \<Rightarrow> (request_t \<Rightarrow> request_t) \<Rightarrow> int \<Rightarrow> string \<Rightarrow> ops_state \<Rightarrow> server \<Rightarrow> server" where
  "answered i f fd bs o' s = answer fd bs ((requested i f (increment_counter (left [] s)))\<lparr>ops := o'\<rparr>)"

lemma answered_session:
  assumes "session_of i fd c s" and "input [] s" and "session_id c' = session_id c" and "client_ready c'"
  shows "session_of i fd c' (answered i f fd bs f' s)" and "input [] (answered i f fd bs f' s)"
    and "sent_to fd (answered i f fd bs f' s) = sent_to fd s @ bs" and "ops (answered i f fd bs f' s) = f'"
    and "fd' \<noteq> fd \<Longrightarrow> clients (answered i f fd bs f' s) fd' = clients s fd'"
  using assms
  by (auto simp: session_of_def answered_def answer_def fd_ready_def input_def sent_to_def left_def)

lemma after_call_simps [simp]:
  "session_id (after_call m n c) = session_id c" "client_ready (after_call m n c) = client_ready c"
  "sent (to_server (after_call m n c)) = sent (to_server c) @ m"
  "pending (from_server (after_call m n c)) = drop n (pending (from_server c))"
  by (simp_all add: after_call_def client_ready_def)

lemma with_answer_simps [simp]:
  "session_id (with_answer b c) = session_id c" "client_ready (with_answer b c) = client_ready c"
  "to_server (with_answer b c) = to_server c" "os_rets (with_answer b c) = os_rets c"
  "pending (from_server (with_answer b c)) = pending (from_server c) @ b"
  by (simp_all add: with_answer_def client_ready_def)

section \<open>Results of the file system that fit into a message\<close>

lemma unlock_range: "fst (unlock_destroy_global r s) = -1 \<or> fst (unlock_destroy_global r s) = r"
  by (auto simp: unlock_destroy_global_def Let_def split: prod.splits)

lemma attach_range: "fst (add_to_open_file_table i off s) \<ge> -1 \<and> fst (add_to_open_file_table i off s) < 20"
  by (rule add_handle_cases [of i off s]) auto

lemma tfs_open_unsynchronized_range:
  assumes "tfs_open_unsynchronized n flgs s = Inr (r, t)"
  shows "-1 \<le> r \<and> r < 20"
proof -
  have attach: "-1 \<le> q \<and> q < 20" if "add_to_open_file_table i off u = (q, v)" for i off u q v
    using attach_range [of i off u] that by simp
  show ?thesis
  proof (cases "tfs_lookup_unsynchronized n s \<ge> 0")
    case True
    with assms show ?thesis
      by (auto simp: tfs_open_unsynchronized_def Let_def dest: attach
          split: if_splits option.splits prod.splits)
  next
    case False
    obtain i s1 where create: "inode_create T_FILE s = (i, s1)" by fastforce
    show ?thesis
    proof (cases "flgs AND TFS_O_CREAT \<noteq> 0 \<and> i \<noteq> -1")
      case True
      with assms False create obtain m where "(let (q, s2) = add_dir_entry ROOT_DIR_INUM i m s1 in
          if q = -1 then Inr (-1, snd (inode_delete i s2)) else Inr (add_to_open_file_table i 0 s2))
          = (Inr (r, t) :: fault + int \<times> fs_state)"
        by (auto simp: tfs_open_unsynchronized_def Let_def andthen_eq_Inr)
      then show ?thesis by (auto simp: Let_def dest: attach split: prod.splits if_splits)
    next
      case no: False
      with assms False create show ?thesis
        by (auto simp: tfs_open_unsynchronized_def split: if_splits)
    qed
  qed
qed

lemma tfs_open_range:
  assumes "tfs_open n flgs s = Inr (r, t)"
  shows "-1 \<le> r \<and> r < 20"
proof -
  have ud: "q = -1 \<or> q = p" if "unlock_destroy_global p u = (q, v)" for p u q v
    using unlock_range [of p u] that by simp
  from assms show ?thesis
    by (auto simp: tfs_open_def andthen_eq_Inr Let_def dest!: ud dest: tfs_open_unsynchronized_range
        split: if_splits prod.splits)
qed

lemma tfs_close_range:
  assumes "quiet s" and "tfs_close h s = Inr (r, t)"
  shows "r = -1 \<or> r = 0"
proof (cases "valid_file_handle h \<and> open_handle (fs s) (nat h)")
  case True
  then have "h = int (nat h)" by (simp add: valid_file_handle_def)
  with tfs_close_quiet [OF assms(1)] True assms(2) show ?thesis by (metis Pair_inject sum.inject(2))
next
  case False
  then have "\<not> valid_file_handle h \<or> free_open_file_entries (fs s) (nat h) = FREE"
    by (auto simp: open_handle_def valid_file_handle_def)
  with tfs_close_not_open [OF assms(1)] assms(2) show ?thesis by auto
qed

section \<open>Requests on files\<close>

lemma update_requested: "update_request i q' (requested i q s) = requested i (q' \<circ> q) s"
  by (cases "slaves s i") (simp add: update_request_def requested_def)

lemma update_request_id: "update_request i id s = s"
  by (simp add: update_request_def)

lemma session_parts:
  assumes "session_of i fd c s"
  shows "i < MAX_SESSIONS" and "session_id c = int i" and "client_ready c"
    and "short_int (session_id c)"
  using assms short_slot by (simp_all add: session_of_def)

definition same_sessions :: "server \<Rightarrow> server \<Rightarrow> bool" where
  "same_sessions s s' \<longleftrightarrow> sessions s' = sessions s \<and> free_sessions s' = free_sessions s
     \<and> (\<forall>j. slave_session_id (slaves s' j) = slave_session_id (slaves s j))"

text \<open>What a request leaves behind: the session as it was, the answer on its pipe and on no other.\<close>

definition served :: "nat \<Rightarrow> int \<Rightarrow> string \<Rightarrow> ops_state \<Rightarrow> client \<Rightarrow> server \<Rightarrow> server \<Rightarrow> bool" where
  "served i fd bs f c' s s' \<longleftrightarrow> session_of i fd c' s' \<and> input [] s' \<and> ops s' = f
     \<and> sent_to fd s' = sent_to fd s @ bs \<and> (\<forall>fd'. fd' \<noteq> fd \<longrightarrow> clients s' fd' = clients s fd')
     \<and> same_sessions s s'"

lemma answered_served:
  assumes "session_of i fd c s" and "input [] s" and "session_id c' = session_id c" and "client_ready c'"
  shows "served i fd bs f c' s (answered i q fd bs f s)"
  using answered_session [OF assms]
  by (simp add: served_def same_sessions_def answered_def answer_def left_def)

end
