(* ===== verification/Requests.thy ===== *)
theory Requests
  imports Remote
begin

text \<open>
  The requests on files as operations of the file system: the message each sends, what the main thread makes
  of it, what the slave does and answers, and what the client returns.
\<close>

section \<open>Calls of the client\<close>

text \<open>A path in an array of at least 40 bytes, as the client's \<open>tfs_open\<close> copies it.\<close>

definition padded :: "string \<Rightarrow> string" where
  "padded p = take NAME_SIZE (p @ replicate NAME_SIZE NUL)"

fun request_msg :: "nat \<Rightarrow> fs_op \<Rightarrow> string" where
  "request_msg i (Open p flgs) = open_msg (int i) (padded p) flgs"
| "request_msg i (Close h) = close_msg (int i) (int h)"
| "request_msg i (Write h d) = write_msg (int i) (int h) d"
| "request_msg i (Read h len) = read_msg (int i) (int h) (int len)"

fun client_call :: "fs_op \<Rightarrow> client \<Rightarrow> fault + fs_ret \<times> client" where
  "client_call (Open p flgs) c = andthen (client_open (padded p) flgs c) (\<lambda>(r, c'). Inr ((r, []), c'))"
| "client_call (Close h) c = andthen (client_close (int h) c) (\<lambda>(r, c'). Inr ((r, []), c'))"
| "client_call (Write h d) c =
     andthen (client_write (int h) d (length d) c) (\<lambda>(r, c'). Inr ((r, []), c'))"
| "client_call (Read h len) c =
     andthen (client_read (int h) (replicate len NUL) len c) (\<lambda>(r, b, c'). Inr ((r, take (nat r) b), c'))"

text \<open>
  The sizes that fit the messages: flags of one digit, handles of at most three digits, writes of four bytes
  (the client reads the answers to no other), reads of fewer than 10000 bytes.
\<close>

fun fits :: "fs_op \<Rightarrow> bool" where
  "fits (Open p flgs) \<longleftrightarrow> 0 \<le> flgs \<and> flgs < 10"
| "fits (Close h) \<longleftrightarrow> h < 1000"
| "fits (Write h d) \<longleftrightarrow> h < 1000 \<and> length d = 4"
| "fits (Read h len) \<longleftrightarrow> h < 1000 \<and> len < 10000"

text \<open>The request the main thread makes of the message, and what is left of it when it has been carried out.\<close>

fun set_request :: "fs_op \<Rightarrow> request_t \<Rightarrow> request_t" where
  "set_request (Open p flgs) = (\<lambda>q. q\<lparr>r_op_code := 3, r_name := padded p, r_flags := flgs\<rparr>)"
| "set_request (Close h) = (\<lambda>q. q\<lparr>r_op_code := 4, r_fhandler := int h\<rparr>)"
| "set_request (Write h d) =
     (\<lambda>q. q\<lparr>r_op_code := 5, r_fhandler := int h, r_len := of_nat (length d), r_to_write := Some d\<rparr>)"
| "set_request (Read h len) = (\<lambda>q. q\<lparr>r_op_code := 6, r_fhandler := int h, r_len := of_nat len\<rparr>)"

fun end_request :: "fs_op \<Rightarrow> request_t \<Rightarrow> request_t" where
  "end_request (Write h d) = (\<lambda>q. q\<lparr>r_to_write := None\<rparr>)"
| "end_request x = id"

section \<open>Paths\<close>

lemma length_padded [simp]: "length (padded p) = NAME_SIZE"
  by (simp add: padded_def)

lemma cstr_cut:
  "strlen p \<le> n \<Longrightarrow> n \<le> r \<Longrightarrow> cstr (take n (p @ replicate r NUL) @ replicate (Suc k) NUL) = cstr p"
proof (induction p arbitrary: n)
  case Nil
  then show ?case by (cases n) simp_all
next
  case (Cons c p)
  show ?case
  proof (cases n)
    case 0
    with Cons.prems show ?thesis by (auto simp: strlen_def split: if_splits)
  next
    case (Suc m)
    with Cons.IH [of m] Cons.prems show ?thesis by (simp add: strlen_def split: if_splits)
  qed
qed

lemma padded_path:
  assumes "proper_path p"
  shows "proper_path (padded p @ replicate 60 NUL)"
    and "cstr (tl (padded p @ replicate 60 NUL)) = cstr (tl p)"
proof -
  let ?q = "padded p @ replicate 60 NUL"
  obtain t where p: "p = CHR ''/'' # t"
    using assms by (cases p) (auto simp: proper_path_def valid_pathname_def char_at_def strlen_def)
  then have t: "strlen t \<le> 39" using assms by (simp add: proper_path_def strlen_def)
  obtain u where u: "?q = CHR ''/'' # u" "cstr u = cstr t"
  proof (rule that)
    show "?q = CHR ''/'' # take 39 (t @ replicate 40 NUL) @ replicate 60 NUL"
      by (simp add: padded_def p take_Cons')
    show "cstr (take 39 (t @ replicate 40 NUL) @ replicate 60 NUL) = cstr t"
      using cstr_cut [OF t, of 40 59] by (simp flip: replicate_Suc)
  qed
  have "proper_path (CHR ''/'' # t)" using assms p by simp
  with u(2) have "proper_path (CHR ''/'' # u)"
    by (simp add: proper_path_def valid_pathname_def strlen_def char_at_def)
  with u show "proper_path ?q" "cstr (tl ?q) = cstr (tl p)" using p by simp_all
qed

lemma truncate_safe_padded:
  assumes "fs_inv s" and "proper_path p"
  shows "truncate_safe (padded p @ replicate 60 NUL) flgs s \<longleftrightarrow> truncate_safe p flgs s"
proof -
  let ?q = "padded p @ replicate 60 NUL"
  have "dir_find m a (tl ?q) = dir_find m a (tl p)" for m a
    by (metis dir_find_cstr padded_path(2) [OF assms(2)])
  then have "tfs_lookup_unsynchronized (Some ?q) s = tfs_lookup_unsynchronized (Some p) s"
    using padded_path(1) [OF assms(2)] assms(2)
    by (simp add: tfs_lookup_unsynchronized_def find_in_root [OF assms(1)] proper_path_def)
  then show ?thesis by (simp add: truncate_safe_def)
qed

section \<open>The main thread\<close>

lemma handle_int: "h < 1000 \<Longrightarrow> short_int (int h)"
  by (simp add: short_int_def)

lemma serve_request:
  assumes "input (request_msg i x @ rest) s" and "i < MAX_SESSIONS" and "fits x" and "length g = SIZE"
  shows "serve g s = Inr (increment_counter (hand_over i (set_request x) (left rest s)))"
proof (cases x)
  case (Open p flgs)
  with assms show ?thesis by (simp add: serve_open)
next
  case (Close h)
  with assms show ?thesis by (simp add: serve_close handle_int)
next
  case (Write h d)
  with assms serve_write [of i "int h" d rest s g] show ?thesis by (simp add: handle_int)
next
  case (Read h len)
  with assms show ?thesis by (simp add: serve_read handle_int)
qed

section \<open>The message of a call\<close>

text \<open>
  What the client's function writes to the server's pipe before it reads the answer: the bytes that any of its
  runs, with whatever answer, adds to what it has sent.
\<close>

definition sends :: "fs_op \<Rightarrow> client \<Rightarrow> string \<Rightarrow> bool" where
  "sends x c msg \<longleftrightarrow> (\<exists>bs r c'. client_call x (with_answer bs c) = Inr (r, c')
     \<and> sent (to_server c') = sent (to_server c) @ msg)"

lemma read_server_sent: "read_server b n c = Inr (r, b', c') \<Longrightarrow> to_server c' = to_server c"
  by (auto simp: read_server_def andthen_eq_Inr)

lemma client_call_sends:
  assumes "client_call x c = Inr (r, c')" and "client_ready c" and "session_id c = int i" and "i < MAX_SESSIONS"
    and "fits x"
  shows "sent (to_server c') = sent (to_server c) @ request_msg i x"
proof -
  have sid: "short_int (session_id c)" using assms(3) short_slot [OF assms(4)] by simp
  show ?thesis
  proof (cases x)
    case (Open p flgs)
    with assms sid show ?thesis
      by (auto simp: client_open_def memcpy_from_def client_simps andthen_eq_Inr open_msg_def dest!: read_server_sent)
  next
    case (Close h)
    with assms client_close_sends [OF assms(2) sid, of "int h"] show ?thesis
      by (auto simp: andthen_eq_Inr handle_int dest!: read_server_sent)
  next
    case (Write h d)
    with assms client_write_sends [OF assms(2) sid, of "int h" d] show ?thesis
      by (auto simp: andthen_eq_Inr handle_int dest!: read_server_sent split: if_splits)
  next
    case (Read h len)
    with assms sid handle_int [of h] int_field_long [of "int len" 9] show ?thesis
      by (auto simp: client_read_def client_simps andthen_eq_Inr read_msg_def split: if_splits dest!: read_server_sent)
  qed
qed

text \<open>Every call of the client sends its message.\<close>

lemma sends_request:
  assumes "client_ready c" and "session_id c = int i" and "i < MAX_SESSIONS" and "fits x"
    and "pending (from_server c) = []"
  shows "sends x c msg \<longleftrightarrow> msg = request_msg i x"
proof
  assume "sends x c msg"
  then obtain bs r c' where "client_call x (with_answer bs c) = Inr (r, c')"
      "sent (to_server c') = sent (to_server c) @ msg"
    by (auto simp: sends_def)
  with client_call_sends [of x "with_answer bs c" r c' i] assms(1-4) show "msg = request_msg i x" by simp
next
  let ?c = "with_answer (field4 0) c"
  have sid: "short_int (session_id c)" using assms(2) short_slot [OF assms(3)] by simp
  have "\<exists>r c'. client_call x ?c = Inr (r, c')"
  proof (cases x)
    case (Open p flgs)
    with client_open_eq [of ?c "padded p" 0 "[]" flgs] assms sid show ?thesis by (simp add: short_int_def)
  next
    case (Close h)
    with client_close_eq [of ?c "int h" 0 "[]"] assms sid handle_int [of h] show ?thesis
      by (simp add: short_int_def)
  next
    case (Write h d)
    with client_write_4 [of ?c "int h" d 0 "[]"] assms sid handle_int [of h] show ?thesis
      by (simp add: short_int_def)
  next
    case (Read h len)
    with client_read_eq [of ?c "int h" len "[]" "[]" "replicate len NUL"] assms sid handle_int [of h] show ?thesis
      by (simp add: short_int_def)
  qed
  then obtain r c' where c': "client_call x ?c = Inr (r, c')" by blast
  assume "msg = request_msg i x"
  moreover have "sent (to_server c') = sent (to_server c) @ request_msg i x"
    using client_call_sends [OF c', of i] assms(1-4) by simp
  ultimately show "sends x c msg" unfolding sends_def using c' by blast
qed

section \<open>The slave and the client\<close>

text \<open>The client of session \<open>i\<close> whose coming bytes are \<open>bs\<close> returns \<open>r\<close> from the call.\<close>

definition client_gets :: "nat \<Rightarrow> fs_op \<Rightarrow> fs_ret \<Rightarrow> string \<Rightarrow> bool" where
  "client_gets i x r bs \<longleftrightarrow> (\<forall>c. client_ready c \<longrightarrow> session_id c = int i \<longrightarrow> pending (from_server c) = bs
     \<longrightarrow> client_call x c = Inr (r, after_call (request_msg i x) (length bs) c))"

text \<open>Slave \<open>i\<close> carries out \<open>x\<close> as the specification says and answers what the client takes for the result.\<close>

definition carried_out :: "string \<Rightarrow> nat \<Rightarrow> int \<Rightarrow> fs_op \<Rightarrow> server \<Rightarrow> bool" where
  "carried_out g i fd x s \<longleftrightarrow> (\<exists>r bs f. solve g i s
       = Inr (answer fd bs ((update_request i (end_request x) s)\<lparr>ops := f\<rparr>))
     \<and> ops_inv f \<and> fs_spec (abs_ops (ops s)) x r (abs_ops f) \<and> client_gets i x r bs)"

definition requesting :: "nat \<Rightarrow> int \<Rightarrow> fs_op \<Rightarrow> server \<Rightarrow> bool" where
  "requesting i fd x s \<longleftrightarrow> i < MAX_SESSIONS \<and> (\<exists>q. request (slaves s i) = set_request x q)
     \<and> s_fhandler (sessions s i) = fd \<and> fd_ready fd s \<and> ops_inv (ops s) \<and> fs_ok (ops s) x \<and> fits x"

lemma requestingD:
  assumes "requesting i fd x s"
  shows "i < MAX_SESSIONS" and "s_fhandler (sessions s i) = fd" and "fd_ready fd s" and "ops_inv (ops s)"
    and "fs_ok (ops s) x" and "fits x" and "quiet (ops s)" and "short_int (int i)"
  using assms short_slot by (auto simp: requesting_def ops_inv_def)

lemma open_carried_out:
  assumes "requesting i fd (Open p flgs) s"
  shows "carried_out g i fd (Open p flgs) s"
proof -
  note * = requestingD [OF assms]
  let ?q = "padded p @ replicate 60 NUL"
  have p: "proper_path p" using *(5) by simp
  have "fs_inv (fs (ops s))" using *(4) by (simp add: ops_inv_def)
  with *(5) have "fs_ok (ops s) (Open ?q flgs)" by (simp add: truncate_safe_padded padded_path(1))
  from step_open [OF *(4) this] obtain r f where
    f: "tfs_open (Some ?q) flgs (ops s) = Inr (r, f)" "ops_inv f"
      "fs_spec (abs_ops (ops s)) (Open p flgs) (r, []) (abs_ops f)"
    by (auto simp: andthen_eq_Inr padded_path(2) [OF p])
  have r: "-1 \<le> r" "r < 20" using tfs_open_range [OF f(1)] by simp_all
  obtain q where q: "request (slaves s i) = set_request (Open p flgs) q" using assms by (auto simp: requesting_def)
  have "solve g i s = Inr (answer fd (field4 r) (s\<lparr>ops := f\<rparr>))"
    by (rule solve_open) (use * q f(1) r in simp_all)
  moreover have "client_gets i (Open p flgs) (r, []) (field4 r)"
    using client_open_eq [of _ "padded p" r "[]" flgs] *(8) r
    by (auto simp: client_gets_def short_int_def)
  ultimately show ?thesis using f(2,3) unfolding carried_out_def by (auto simp: update_request_id)
qed

lemma close_carried_out:
  assumes "requesting i fd (Close h) s"
  shows "carried_out g i fd (Close h) s"
proof -
  note * = requestingD [OF assms]
  from step_close [OF *(4,5)] obtain r f where
    f: "tfs_close (int h) (ops s) = Inr (r, f)" "ops_inv f"
      "fs_spec (abs_ops (ops s)) (Close h) (r, []) (abs_ops f)"
    by (auto simp: andthen_eq_Inr)
  have r: "r = -1 \<or> r = 0" by (rule tfs_close_range [OF *(7) f(1)])
  obtain q where q: "request (slaves s i) = set_request (Close h) q" using assms by (auto simp: requesting_def)
  have "solve g i s = Inr (answer fd (field4 r) (s\<lparr>ops := f\<rparr>))"
    by (rule solve_close) (use * q f(1) r in auto)
  moreover have "client_gets i (Close h) (r, []) (field4 r)"
    using client_close_eq [of _ "int h" r "[]"] *(6,8) r
    by (auto simp: client_gets_def short_int_def)
  ultimately show ?thesis using f(2,3) unfolding carried_out_def by (auto simp: update_request_id)
qed

lemma write_carried_out:
  assumes "requesting i fd (Write h d) s"
  shows "carried_out g i fd (Write h d) s"
proof -
  note * = requestingD [OF assms]
  have d: "length d = 4" using *(6) by simp
  from step_write [OF *(4,5)] obtain r f where
    f: "tfs_write (int h) d (of_nat (length d)) (ops s) = Inr (r, f)" "ops_inv f"
      "fs_spec (abs_ops (ops s)) (Write h d) (r, []) (abs_ops f)"
    by (auto simp: andthen_eq_Inr)
  have "open_handle (fs (ops s)) h" using *(5) by simp
  then have r: "0 \<le> r" "r \<le> 4"
    using f(3) d by (auto simp: spec_write_def abs_ops_def abs_fds_def Let_def)
  obtain q where q: "request (slaves s i) = set_request (Write h d) q" using assms by (auto simp: requesting_def)
  have "solve g i s = Inr (answer fd (field4 r)
      ((update_request i (\<lambda>q. q\<lparr>r_to_write := None\<rparr>) s)\<lparr>ops := f\<rparr>))"
    by (rule solve_write) (use * q f(1) r d in simp_all)
  moreover have "client_gets i (Write h d) (r, []) (field4 r)"
    using client_write_4 [of _ "int h" d r "[]"] *(6,8) r
    by (auto simp: client_gets_def short_int_def)
  ultimately show ?thesis using f(2,3) unfolding carried_out_def by fastforce
qed

lemma read_carried_out:
  assumes "requesting i fd (Read h len) s"
  shows "carried_out g i fd (Read h len) s"
proof -
  note * = requestingD [OF assms]
  have h: "open_handle (fs (ops s)) h" using *(5) by simp
  have len: "unat (of_nat len :: size_t) = len" using *(6) by (intro unat_of_length) simp
  obtain r f where step: "fs_step (ops s) (Read h len) = Inr (r, f)" "ops_inv f"
      "fs_spec (abs_ops (ops s)) (Read h len) r (abs_ops f)"
    using step_read [OF *(4,5)] by blast
  obtain bs r' t where bs: "tfs_read (int h) (replicate len NUL) (of_nat len) (ops s)
        = Inr (r', bs @ drop (length bs) (replicate len NUL), t)"
      "spec_read h len (abs_ops (ops s)) = ((r', bs), abs_ops t)"
    using tfs_read_refines [OF *(4) h, of "of_nat len" "replicate len NUL"] len by auto
  then have r': "r' = int (length bs)" "length bs \<le> len"
    using h by (auto simp: spec_read_def abs_ops_def abs_fds_def Let_def)
  with step(1) bs(1) have r: "r = (int (length bs), bs)" "f = t" by auto
  obtain q where q: "request (slaves s i) = set_request (Read h len) q" using assms by (auto simp: requesting_def)
  have "solve g i s = Inr (answer fd (field4 (int (length bs)) @ bs) (s\<lparr>ops := t\<rparr>))"
    by (rule solve_read) (use * q bs(1) r' in simp_all)
  moreover have "client_gets i (Read h len) (int (length bs), bs) (field4 (int (length bs)) @ bs)"
    using client_read_eq [of _ "int h" len bs "[]" "replicate len NUL"] *(6,8) r'
    by (auto simp: client_gets_def short_int_def)
  ultimately show ?thesis using step(2,3) r unfolding carried_out_def by (auto simp: update_request_id)
qed

lemma request_carried_out: "requesting i fd x s \<Longrightarrow> carried_out g i fd x s"
  by (cases x) (simp_all add: open_carried_out close_carried_out write_carried_out read_carried_out)

end
