(* ===== verification/Remote_Histories.thy ===== *)
theory Remote_Histories
  imports Requests
begin

text \<open>
  Histories of requests: clients that have a session each send requests in any order, the server answers
  them, and the answers are those of the specification of the file system in that order.
\<close>

section \<open>A request of the file system sent by a client\<close>

text \<open>The clients, by their session, and the server.\<close>

type_synonym net = "(nat \<Rightarrow> client) \<times> server"

text \<open>
  The client of session \<open>i\<close> makes the call \<open>x\<close>: its message goes through the server, the bytes the server
  writes to the session's pipe are what the client reads. \<open>g\<close> is what uninitialised arrays hold. The last
  test says that the message is the one the client sends.
\<close>

definition remote_step :: "net \<Rightarrow> nat \<times> string \<times> fs_op \<Rightarrow> fault + fs_ret \<times> net" where
  "remote_step n a =
     (case (n, a) of ((cs, s), (i, g, x)) \<Rightarrow>
        let msg = request_msg i x; fd = s_fhandler (sessions s i) in
        andthen (round_trip g i (deliver msg s)) (\<lambda>s'.
        let bs = drop (length (sent_to fd s)) (sent_to fd s') in
        andthen (client_call x (with_answer bs (cs i))) (\<lambda>(r, c').
          if sent (to_server c') = sent (to_server (cs i)) @ msg then Inr (r, (cs(i := c'), s'))
          else Inl Blocked)))"

text \<open>No two sessions use the same pipe, every client has read all its answers.\<close>

definition net_inv :: "net \<Rightarrow> bool" where
  "net_inv n \<longleftrightarrow> (case n of (cs, s) \<Rightarrow> input [] s \<and> ops_inv (ops s)
     \<and> (\<forall>i<MAX_SESSIONS. free_sessions s i = TAKEN_POS \<longrightarrow>
          session_of i (s_fhandler (sessions s i)) (cs i) s \<and> pending (from_server (cs i)) = []
        \<and> (\<forall>j<MAX_SESSIONS. free_sessions s j = TAKEN_POS \<longrightarrow> j \<noteq> i \<longrightarrow>
             s_fhandler (sessions s j) \<noteq> s_fhandler (sessions s i))))"

text \<open>What a request has to respect: what the file system asks for and the sizes of the messages.\<close>

fun remote_ok :: "net \<Rightarrow> nat \<times> string \<times> fs_op \<Rightarrow> bool" where
  "remote_ok (cs, s) (i, g, x) \<longleftrightarrow> i < MAX_SESSIONS \<and> free_sessions s i = TAKEN_POS \<and> length g = SIZE
     \<and> fs_ok (ops s) x \<and> fits x"

definition net_abs :: "net \<Rightarrow> spec_fs" where
  "net_abs n = abs_ops (ops (snd n))"

fun net_spec :: "spec_fs \<Rightarrow> nat \<times> string \<times> fs_op \<Rightarrow> fs_ret \<Rightarrow> spec_fs \<Rightarrow> bool" where
  "net_spec a (i, g, x) r b = fs_spec a x r b"

section \<open>One request\<close>

text \<open>What the request \<open>x\<close> of a client must give.\<close>

definition answers :: "string \<Rightarrow> nat \<Rightarrow> int \<Rightarrow> client \<Rightarrow> server \<Rightarrow> fs_op \<Rightarrow> bool" where
  "answers g i fd c s x \<longleftrightarrow> (\<exists>r c' s' bs. round_trip g i (deliver (request_msg i x) s) = Inr s'
     \<and> client_call x (with_answer bs c) = Inr (r, c')
     \<and> sent (to_server c') = sent (to_server c) @ request_msg i x \<and> pending (from_server c') = []
     \<and> served i fd bs (ops s') c' s s' \<and> ops_inv (ops s')
     \<and> fs_spec (abs_ops (ops s)) x r (abs_ops (ops s')))"

text \<open>A client whose session is idle.\<close>

definition idle :: "nat \<Rightarrow> int \<Rightarrow> client \<Rightarrow> server \<Rightarrow> bool" where
  "idle i fd c s \<longleftrightarrow> session_of i fd c s \<and> input [] s \<and> pending (from_server c) = [] \<and> ops_inv (ops s)"

lemma idleD:
  assumes "idle i fd c s"
  shows "session_of i fd c s" and "input [] s" and "pending (from_server c) = []" and "ops_inv (ops s)"
  using assms by (simp_all add: idle_def)

lemma request_answered:
  assumes "idle i fd c s" and "fs_ok (ops s) x" and "fits x" and "length g = SIZE"
  shows "answers g i fd c s x"
proof -
  note idle = idleD [OF assms(1)] and i = session_parts [OF idleD(1) [OF assms(1)]]
  let ?m = "request_msg i x" and ?q = "set_request x" and ?q' = "end_request x"
  let ?s2 = "requested i ?q (increment_counter (left [] s))"
  have "requesting i fd x ?s2"
    using assms(2,3) idle i(1) by (auto simp: requesting_def session_of_def fd_ready_def)
  then obtain r bs f where f: "solve g i ?s2 = Inr (answer fd bs ((update_request i ?q' ?s2)\<lparr>ops := f\<rparr>))"
      "ops_inv f" "fs_spec (abs_ops (ops s)) x r (abs_ops f)" "client_gets i x r bs"
    using request_carried_out [of i fd x ?s2 g] by (auto simp: carried_out_def)
  let ?s' = "answered i (?q' \<circ> ?q) fd bs f s" and ?c = "with_answer bs c"
  have left: "left [] (deliver ?m s) = left [] s" by (simp add: left_def deliver_def)
  have "serve g (deliver ?m s) = Inr (increment_counter (hand_over i ?q (left [] s)))"
    using serve_request [of i x "[]" "deliver ?m s" g] deliver_input [OF idle(2), of ?m] i(1) assms(3,4) left
    by simp
  with f(1) have trip: "round_trip g i (deliver ?m s) = Inr ?s'"
    by (simp add: round_trip_def take_hand_over answered_def update_requested)
  let ?c' = "after_call ?m (length bs) ?c"
  have call: "client_call x ?c = Inr (r, ?c')"
    using f(4) i idle(3) by (simp add: client_gets_def)
  have "served i fd bs f ?c' s ?s'"
    by (rule answered_served [OF idle(1,2)]) (simp_all add: i(3))
  moreover from this have "ops ?s' = f" by (simp add: served_def)
  ultimately show ?thesis
    unfolding answers_def using trip call f(2,3) idle(3)
    by (intro exI [of _ r] exI [of _ ?c'] exI [of _ ?s'] exI [of _ bs]) simp
qed

text \<open>A request leaves the other sessions as they were.\<close>

lemma served_others:
  assumes "served i fd bs f c' s s'" and "session_of j fd' c s" and "fd' \<noteq> fd"
  shows "session_of j fd' c s'"
  using assms by (auto simp: served_def session_of_def same_sessions_def fd_ready_def)

lemma net_invD:
  assumes "net_inv (cs, s)" and "i < MAX_SESSIONS" and "free_sessions s i = TAKEN_POS"
  shows "idle i (s_fhandler (sessions s i)) (cs i) s"
  using assms by (auto simp: net_inv_def idle_def)

lemma served_net_inv:
  assumes "net_inv (cs, s)" and "i < MAX_SESSIONS" and "free_sessions s i = TAKEN_POS"
    and "served i (s_fhandler (sessions s i)) bs (ops s') c' s s'" and "pending (from_server c') = []"
    and "ops_inv (ops s')"
  shows "net_inv (cs(i := c'), s')"
proof -
  have same: "sessions s' = sessions s" "free_sessions s' = free_sessions s" "input [] s'"
    using assms(4) by (simp_all add: served_def same_sessions_def)
  have "session_of j (s_fhandler (sessions s j)) ((cs(i := c')) j) s'"
    if "j < MAX_SESSIONS" "free_sessions s j = TAKEN_POS" for j
  proof (cases "j = i")
    case True
    with assms(4) show ?thesis by (simp add: served_def)
  next
    case False
    with assms(1-3) that have "session_of j (s_fhandler (sessions s j)) (cs j) s"
        "s_fhandler (sessions s j) \<noteq> s_fhandler (sessions s i)"
      by (simp_all add: net_inv_def)
    with served_others [OF assms(4)] False show ?thesis by simp
  qed
  with assms(1,5,6) same show ?thesis by (simp add: net_inv_def)
qed

lemma remote_simulation:
  assumes inv: "net_inv (cs, s)" and ok: "remote_ok (cs, s) (i, g, x)"
  shows "\<exists>r cs' s'. remote_step (cs, s) (i, g, x) = Inr (r, (cs', s')) \<and> net_inv (cs', s')
    \<and> fs_spec (abs_ops (ops s)) x r (abs_ops (ops s')) \<and> free_sessions s' = free_sessions s"
proof -
  let ?fd = "s_fhandler (sessions s i)"
  have i: "i < MAX_SESSIONS" "free_sessions s i = TAKEN_POS" using ok by simp_all
  have "answers g i ?fd (cs i) s x"
    by (rule request_answered [OF net_invD [OF inv i]]) (use ok in simp_all)
  then obtain r c' s' bs where a: "round_trip g i (deliver (request_msg i x) s) = Inr s'"
      "client_call x (with_answer bs (cs i)) = Inr (r, c')"
      "sent (to_server c') = sent (to_server (cs i)) @ request_msg i x" "pending (from_server c') = []"
      "served i ?fd bs (ops s') c' s s'" "ops_inv (ops s')" "fs_spec (abs_ops (ops s)) x r (abs_ops (ops s'))"
    unfolding answers_def by blast
  then have "sent_to ?fd s' = sent_to ?fd s @ bs" "free_sessions s' = free_sessions s"
    by (simp_all add: served_def same_sessions_def)
  with a(1-3) served_net_inv [OF inv i a(5,4,6)] a(7) show ?thesis
    by (simp add: remote_step_def)
qed

interpretation remote: refinement remote_step net_inv remote_ok net_abs net_spec
proof
  fix n x
  assume "net_inv n" and "remote_ok n x"
  then show "\<exists>r t. remote_step n x = Inr (r, t) \<and> net_inv t \<and> net_spec (net_abs n) x r (net_abs t)"
    using remote_simulation by (cases n; cases x) (fastforce simp: net_abs_def)
qed

end
