(* ===== verification/Server_Examples.thy ===== *)
theory Server_Examples
  imports Remote_Histories
begin

text \<open>
  Concrete states of the server for the instances below: after its initialisation, and with some sessions
  mounted.
\<close>

text \<open>The static variables, on the file system after \<open>tfs_init\<close>, with the descriptors of the coming pipes.\<close>

definition static_server :: server where
  "static_server = \<lparr>
     sessions = (\<lambda>_. \<lparr>s_session_id = 0, s_name = replicate NAME_SIZE NUL, s_fhandler = 0\<rparr>),
     free_sessions = (\<lambda>_. TAKEN_POS), open_sessions = 0,
     slaves = (\<lambda>_. \<lparr>slave_session_id = 0, wake_up = False, request = \<lparr>r_op_code = 0, r_fcli = 0,
       r_fhandler = 0, r_len = 0, r_flags = 0, r_name = replicate NAME_SIZE NUL, r_to_write = None\<rparr>\<rparr>),
     global_locked = False, counter_operations = 0, ops = boot,
     fserv = \<lparr>pending = [], writers_closed = False, read_rets = [], errno = 0\<rparr>,
     clients = Map.empty, open_rets = map int [4..<20], reopen_rets = [], closed_pipes = []\<rparr>"

definition server0 :: server where
  "server0 = server_init static_server"

text \<open>The first \<open>k\<close> sessions mounted, session \<open>i\<close> with descriptor \<open>4 + i\<close>.\<close>

definition serving :: "nat \<Rightarrow> ops_state \<Rightarrow> server" where
  "serving k f = server0\<lparr>
     free_sessions := (\<lambda>i. if i < k then TAKEN_POS else FREE_POS), open_sessions := int k,
     sessions := (\<lambda>i. if i < k
        then \<lparr>s_session_id = int i, s_name = replicate NAME_SIZE NUL, s_fhandler = 4 + int i\<rparr> else empty_session),
     clients := (\<lambda>fd. if 4 \<le> fd \<and> fd < 4 + int k then Some \<lparr>sent = [], write_rets = []\<rparr> else None),
     open_rets := map int [k + 4..<20], ops := f\<rparr>"

text \<open>A client before its mount, and the client of session \<open>i\<close>.\<close>

definition client0 :: client where
  "client0 = \<lparr>to_server = \<lparr>sent = [], write_rets = []\<rparr>,
     from_server = \<lparr>pending = [], writers_closed = False, read_rets = [], errno = 0\<rparr>,
     session_id = -1, os_rets = []\<rparr>"

definition client_of :: "nat \<Rightarrow> client" where
  "client_of i = client0\<lparr>session_id := int i\<rparr>"

definition garbage0 :: string where
  "garbage0 = replicate SIZE CHR ''x''"

lemma length_garbage0 [simp]: "length garbage0 = SIZE"
  by (simp add: garbage0_def)

lemma client0_simps [simp]:
  "client_ready client0" "os_rets client0 = []" "pending (from_server client0) = []"
  "session_id client0 = -1" "sent (to_server client0) = []"
  by (simp_all add: client0_def client_ready_def)

lemma client_of_simps [simp]:
  "client_ready (client_of i)" "os_rets (client_of i) = []" "pending (from_server (client_of i)) = []"
  "session_id (client_of i) = int i" "sent (to_server (client_of i)) = []"
  by (simp_all add: client_of_def client0_def client_ready_def)

lemma serving_simps [simp]:
  "free_sessions (serving k f) i = (if i < k then TAKEN_POS else FREE_POS)"
  "open_sessions (serving k f) = int k" "ops (serving k f) = f" "input [] (serving k f)"
  "\<not> global_locked (serving k f)" "open_rets (serving k f) = map int [k + 4..<20]"
  "i < k \<Longrightarrow> s_fhandler (sessions (serving k f) i) = 4 + int i"
  "i < MAX_SESSIONS \<Longrightarrow> slave_session_id (slaves (serving k f) i) = int i"
  "i < MAX_SESSIONS \<Longrightarrow> r_name (request (slaves (serving k f) i)) = replicate NAME_SIZE NUL"
  by (simp_all add: serving_def server0_def server_init_def static_server_def init_slave_def input_def)

lemma serving_first_open:
  assumes "k < 16"
  shows "first_open (open_rets (serving k f)) = Some (4 + int k, map int [k + 5..<20])"
  using assms by (simp add: upt_conv_Cons add.commute)

lemma serving_session:
  assumes "i < k" and "k \<le> MAX_SESSIONS"
  shows "session_of i (4 + int i) (client_of i) (serving k f)"
  using assms by (simp add: session_of_def fd_ready_def) (simp add: serving_def)

lemma serving_net_inv:
  assumes "k \<le> MAX_SESSIONS" and "ops_inv f"
  shows "net_inv (client_of, serving k f)"
  using assms serving_session [OF _ assms(1)] by (simp add: net_inv_def)

end
