(* ===== verification/Sessions.thy ===== *)
theory Sessions
  imports Server_Examples
begin

text \<open>
  The life of a session: mount, unmount, the table that holds at most ten of them, and what goes wrong
  when it is full.
\<close>

section \<open>Mount\<close>

lemma solve_mount:
  assumes "r_op_code (request (slaves s i)) = 1" and "r_fcli (request (slaves s i)) = fd" and "fd_ready fd s"
    and "NUL \<in> set (r_name (request (slaves s i)))" and "slave_session_id (slaves s i) = int i"
    and "i < MAX_SESSIONS" and "\<not> global_locked s"
  shows "solve g i s = Inr (answer fd (field4 (int i)) (update_session i (\<lambda>_. \<lparr>s_session_id = int i,
    s_name = take NAME_SIZE (cstr (r_name (request (slaves s i))) @ replicate NAME_SIZE NUL),
    s_fhandler = fd\<rparr>) (s\<lparr>global_locked := False\<rparr>)))"
proof -
  obtain b where b: "int_text SIZE (int i) = Inr b" "length b = SIZE" "take 4 b = field4 (int i)"
    by (rule int_text_field [of "int i" SIZE]) (use assms(6) in simp_all)
  have ready: "fd_ready fd (s\<lparr>global_locked := False, sessions := x\<rparr>)" for x
    using assms(3) by (simp add: fd_ready_def)
  with assms b show ?thesis
    by (simp add: solve_def tfs_thread_mount_def lock_global_def unlock_global_def Let_def
        update_session_def reply_ready)
qed

text \<open>The server after the mount of session \<open>i\<close> on descriptor \<open>fd\<close>, with \<open>rest\<close> left to read.\<close>

definition mount_taken :: "nat \<Rightarrow> int \<Rightarrow> int list \<Rightarrow> string \<Rightarrow> server \<Rightarrow> server" where
  "mount_taken i fd rs rest s = requested i (\<lambda>q. q\<lparr>r_op_code := 1, r_fcli := fd\<rparr>)
     ((mounting fd rs (left rest s))\<lparr>free_sessions := (free_sessions s)(i := TAKEN_POS),
      open_sessions := open_sessions s + 1, global_locked := False\<rparr>)"

definition mounted :: "nat \<Rightarrow> int \<Rightarrow> int list \<Rightarrow> string \<Rightarrow> server \<Rightarrow> server" where
  "mounted i fd rs rest s = answer fd (field4 (int i)) (update_session i (\<lambda>_. \<lparr>s_session_id = int i,
     s_name = take NAME_SIZE (cstr (r_name (request (slaves s i))) @ replicate NAME_SIZE NUL),
     s_fhandler = fd\<rparr>) (mount_taken i fd rs rest s))"

definition can_mount :: "nat \<Rightarrow> int \<Rightarrow> int list \<Rightarrow> server \<Rightarrow> bool" where
  "can_mount i fd rs s \<longleftrightarrow> first_open (open_rets s) = Some (fd, rs)
     \<and> open_sessions s \<noteq> int MAX_SESSIONS \<and> \<not> global_locked s \<and> i < MAX_SESSIONS
     \<and> free_sessions s i = FREE_POS \<and> (\<forall>j<i. free_sessions s j = TAKEN_POS)
     \<and> slave_session_id (slaves s i) = int i \<and> NUL \<in> set (r_name (request (slaves s i)))"

lemma mount_round:
  assumes "input (mount_msg nm @ rest) s" and "length nm = NAME_SIZE" and "can_mount i fd rs s"
  obtains s1 where "serve g s = Inr s1" and "take_request i s1 = Some (mount_taken i fd rs rest s)"
    and "solve g i (mount_taken i fd rs rest s) = Inr (mounted i fd rs rest s)"
    and "r_op_code (request (slaves (mount_taken i fd rs rest s) i)) = 1"
proof
  let ?q = "\<lambda>q. q\<lparr>r_op_code := 1, r_fcli := fd\<rparr>"
  let ?s1 = "(mounting fd rs (left rest s))\<lparr>free_sessions := (free_sessions s)(i := TAKEN_POS),
      open_sessions := open_sessions s + 1, global_locked := False\<rparr>"
  have "serve g s = Inr ((hand_over i ?q (mounting fd rs (left rest s)))
      \<lparr>free_sessions := (free_sessions s)(i := TAKEN_POS), open_sessions := open_sessions s + 1,
       global_locked := False\<rparr>)"
    using serve_mount [of nm rest s fd rs i g] assms by (simp add: can_mount_def)
  also have "(hand_over i ?q (mounting fd rs (left rest s)))
      \<lparr>free_sessions := (free_sessions s)(i := TAKEN_POS), open_sessions := open_sessions s + 1,
       global_locked := False\<rparr> = hand_over i ?q ?s1"
    by (simp add: hand_over_def mounting_def left_def)
  finally show "serve g s = Inr (hand_over i ?q ?s1)" .
  show "take_request i (hand_over i ?q ?s1) = Some (mount_taken i fd rs rest s)"
    by (simp add: take_hand_over mount_taken_def)
  let ?s2 = "mount_taken i fd rs rest s"
  have unlocked: "?s2\<lparr>global_locked := False\<rparr> = ?s2"
    by (simp add: mount_taken_def requested_def)
  have "fd_ready fd ?s2" "\<not> global_locked ?s2"
    by (simp_all add: fd_ready_def mounting_def mount_taken_def requested_def)
  moreover have "r_op_code (request (slaves ?s2 i)) = 1" "r_fcli (request (slaves ?s2 i)) = fd"
      "r_name (request (slaves ?s2 i)) = r_name (request (slaves s i))"
      "slave_session_id (slaves ?s2 i) = slave_session_id (slaves s i)"
    by (simp_all add: mount_taken_def mounting_def)
  ultimately show "solve g i ?s2 = Inr (mounted i fd rs rest s)"
    using solve_mount [of ?s2 i fd g] assms(3) by (simp add: mounted_def can_mount_def unlocked)
  show "r_op_code (request (slaves ?s2 i)) = 1" by (simp add: mount_taken_def)
qed

lemma mounted_simps [simp]:
  "free_sessions (mounted i fd rs rest s) = (free_sessions s)(i := TAKEN_POS)"
  "open_sessions (mounted i fd rs rest s) = open_sessions s + 1" "\<not> global_locked (mounted i fd rs rest s)"
  "ops (mounted i fd rs rest s) = ops s" "open_rets (mounted i fd rs rest s) = rs"
  "s_fhandler (sessions (mounted i fd rs rest s) i) = fd"
  "j \<noteq> i \<Longrightarrow> sessions (mounted i fd rs rest s) j = sessions s j"
  "slave_session_id (slaves (mounted i fd rs rest s) j) = slave_session_id (slaves s j)"
  "r_name (request (slaves (mounted i fd rs rest s) j)) = r_name (request (slaves s j))"
  "sent_to fd (mounted i fd rs rest s) = field4 (int i)" "fd_ready fd (mounted i fd rs rest s)"
  "fd' \<noteq> fd \<Longrightarrow> clients (mounted i fd rs rest s) fd' = clients s fd'"
  "read_rets (fserv (mounted i fd rs rest s)) = read_rets (fserv s)" "pending (fserv (mounted i fd rs rest s)) = rest"
  by (simp_all add: mounted_def mount_taken_def mounting_def update_session_def answer_def sent_to_def
      fd_ready_def requested_def left_def)

text \<open>C18: A mount: with fewer than ten sessions and a free position the client's \<open>tfs_mount\<close>
  returns 0 and has the number of the lowest free position, which is now its session on the newly opened
  pipe; one more session is open, and every other session is as it was.\<close>

theorem remote_mount:
  assumes "client_ready c" and "os_rets c = []" and "pending (from_server c) = []" and "input [] s"
    and "length nm = NAME_SIZE" and "can_mount i fd rs s"
  shows "\<exists>c' s' bs. round_trip g i (deliver (mount_msg nm) s) = Inr s'
    \<and> client_mount nm (with_answer bs c) = Inr (0, c')
    \<and> sent (to_server c') = sent (to_server c) @ mount_msg nm
    \<and> pending (from_server c') = [] \<and> session_of i fd c' s' \<and> input [] s' \<and> sent_to fd s' = bs
    \<and> open_sessions s' = open_sessions s + 1 \<and> \<not> global_locked s' \<and> ops s' = ops s
    \<and> (\<forall>j. j \<noteq> i \<longrightarrow> free_sessions s' j = free_sessions s j \<and> sessions s' j = sessions s j)"
proof -
  let ?m = "mount_msg nm" and ?s = "deliver (mount_msg nm) s"
  let ?s' = "mounted i fd rs [] ?s"
    and ?c' = "(after_call ?m 4 (with_answer (field4 (int i)) c))\<lparr>session_id := int i\<rparr>"
  have i: "i < MAX_SESSIONS" "slave_session_id (slaves s i) = int i"
    using assms(6) by (simp_all add: can_mount_def)
  have "can_mount i fd rs ?s" using assms(6) by (simp add: can_mount_def)
  then have trip: "round_trip g i ?s = Inr ?s'"
    using mount_round [of nm "[]" ?s i fd rs g] deliver_input [OF assms(4)] assms(5)
    by (fastforce simp: round_trip_def)
  have "client_mount nm (with_answer (field4 (int i)) c) = Inr (0, ?c')"
    using client_mount_eq [of "with_answer (field4 (int i)) c" nm "int i" "[]"] assms(1-3,5)
      short_slot [OF i(1)] by simp
  moreover have "client_ready ?c'" "session_id ?c' = int i"
    using assms(1) by (simp_all add: client_ready_def after_call_def with_answer_def)
  moreover from this have "session_of i fd ?c' ?s'" using i by (simp add: session_of_def)
  moreover have "input [] ?s'" using assms(4) by (simp add: input_def)
  ultimately show ?thesis
    using trip assms(3)
    by (intro exI [of _ ?c'] exI [of _ ?s'] exI [of _ "field4 (int i)"]) simp
qed

lemma remote_mount_witness:
  "\<exists>c' s' bs. round_trip garbage0 1 (deliver (mount_msg (padded ''/tmp/b'')) (serving 1 boot)) = Inr s'
    \<and> client_mount (padded ''/tmp/b'') (with_answer bs client0) = Inr (0, c') \<and> session_of 1 5 c' s'"
proof -
  have "can_mount 1 5 (map int [6..<20]) (serving 1 boot)"
    using serving_first_open [of 1 boot] by (simp add: can_mount_def)
  with remote_mount [of client0 "serving 1 boot" "padded ''/tmp/b''" 1 5 "map int [6..<20]" garbage0]
  show ?thesis by auto
qed

section \<open>Unmount\<close>

lemma solve_unmount:
  assumes "r_op_code (request (slaves s i)) = 2" and "s_fhandler (sessions s i) = fd" and "clients s fd \<noteq> None"
    and "\<not> global_locked s"
  shows "solve g i s = Inr (s\<lparr>clients := (clients s)(fd := None),
    closed_pipes := (fd, the (clients s fd)) # closed_pipes s,
    sessions := (sessions s)(i := empty_session), free_sessions := (free_sessions s)(i := FREE_POS),
    global_locked := False\<rparr>)"
  using assms
  by (auto simp: solve_def tfs_thread_unmount_def close_client_def free_pos_def lock_global_def
      unlock_global_def release_pos_def update_session_def Let_def)

text \<open>C19: An unmount: the client's \<open>tfs_unmount\<close> returns 0, and once the slave has carried it
  out the client's pipe is closed, the session's position is free, one session fewer is open, and every other
  session is as it was.\<close>

theorem remote_unmount:
  assumes "session_of i fd c s" and "input [] s" and "os_rets c = []" and "open_sessions s \<noteq> 0"
    and "\<not> global_locked s"
  shows "\<exists>c' s'. client_unmount c = Inr (0, c')
    \<and> sent (to_server c') = sent (to_server c) @ unmount_msg (int i)
    \<and> round_trip g i (deliver (unmount_msg (int i)) s) = Inr s' \<and> input [] s'
    \<and> clients s' = (clients s)(fd := None) \<and> sessions s' = (sessions s)(i := empty_session)
    \<and> free_sessions s' = (free_sessions s)(i := FREE_POS) \<and> open_sessions s' = open_sessions s - 1
    \<and> \<not> global_locked s' \<and> ops s' = ops s"
proof -
  note i = session_parts [OF assms(1)]
  let ?m = "unmount_msg (int i)" and ?q = "\<lambda>q. q\<lparr>r_op_code := 2\<rparr>"
  let ?s1 = "(left [] s)\<lparr>open_sessions := open_sessions s - 1, global_locked := False\<rparr>"
  have left: "left [] (deliver ?m s) = left [] s" by (simp add: left_def deliver_def)
  have "serve g (deliver ?m s) = Inr ((hand_over i ?q (left [] s))
      \<lparr>open_sessions := open_sessions s - 1, global_locked := False\<rparr>)"
    using serve_unmount [of i "[]" "deliver ?m s" g] deliver_input [OF assms(2)] i(1) assms(4,5) left
    by simp
  moreover have "(hand_over i ?q (left [] s))\<lparr>open_sessions := open_sessions s - 1, global_locked := False\<rparr>
      = hand_over i ?q ?s1"
    by (simp add: hand_over_def left_def)
  ultimately have trip: "round_trip g i (deliver ?m s) = solve g i (requested i ?q ?s1)"
    by (simp add: round_trip_def take_hand_over)
  have "s_fhandler (sessions s i) = fd" "clients s fd \<noteq> None"
    using assms(1) by (auto simp: session_of_def fd_ready_def)
  then have "solve g i (requested i ?q ?s1) = Inr ((requested i ?q ?s1)\<lparr>clients := (clients s)(fd := None),
      closed_pipes := (fd, the (clients s fd)) # closed_pipes s,
      sessions := (sessions s)(i := empty_session), free_sessions := (free_sessions s)(i := FREE_POS),
      global_locked := False\<rparr>)"
    using solve_unmount [of "requested i ?q ?s1" i fd g] by simp
  with trip client_unmount_eq [OF i(3) assms(3) i(4)] assms(2) i(2) show ?thesis
    by (simp add: input_def left_def)
qed

lemma remote_unmount_witness:
  "\<exists>c' s'. client_unmount (client_of 0) = Inr (0, c')
    \<and> round_trip garbage0 0 (deliver (unmount_msg 0) (serving 2 boot)) = Inr s'
    \<and> free_sessions s' 0 = FREE_POS \<and> free_sessions s' 1 = TAKEN_POS \<and> open_sessions s' = 1"
  using remote_unmount [OF serving_session [of 0 2 boot], of garbage0] by auto

section \<open>The full table\<close>

text \<open>C20: With ten open sessions a mount is refused: the client sends its request, the server writes an
  answer to the new pipe and closes the pipe again, and that answer makes the client's \<open>tfs_mount\<close> return -1;
  the sessions stay as they were.\<close>

theorem remote_mount_refused:
  assumes "client_ready c" and "os_rets c = []" and "pending (from_server c) = []" and "input [] s"
    and "length nm = NAME_SIZE" and "first_open (open_rets s) = Some (fd, rs)"
    and "open_sessions s = int MAX_SESSIONS"
  shows "\<exists>c' s' p. serve g (deliver (mount_msg nm) s) = Inr s'
    \<and> closed_pipes s' = (fd, p) # closed_pipes s \<and> clients s' = (clients s)(fd := None)
    \<and> client_mount nm (with_answer (sent p) c) = Inr (-1, c')
    \<and> sent (to_server c') = sent (to_server c) @ mount_msg nm \<and> pending (from_server c') = []
    \<and> sessions s' = sessions s \<and> free_sessions s' = free_sessions s \<and> slaves s' = slaves s
    \<and> open_sessions s' = open_sessions s \<and> global_locked s' = global_locked s \<and> input [] s'"
proof -
  let ?m = "mount_msg nm" and ?s2 = "mounting fd rs (left [] s)"
  let ?p = "\<lparr>sent = field4 (-1), write_rets = []\<rparr>"
  have left: "left [] (deliver ?m s) = left [] s" by (simp add: left_def deliver_def)
  have short: "short_int (-1)" by (simp add: short_int_def)
  obtain b where b: "int_text sizeof_int (-1) = Inr b" "length b = 4" "take 4 b = field4 (-1)"
    using sprintf_field4 [OF short, of 4] by (auto simp: int_text_def)
  have "fd_ready fd ?s2" by (simp add: fd_ready_def mounting_def)
  then have "serve g (deliver ?m s) = Inr ((answer fd (field4 (-1)) ?s2)\<lparr>clients := (clients s)(fd := None),
      closed_pipes := (fd, ?p) # closed_pipes s\<rparr>)"
    using serve_mount_start [of nm "[]" "deliver ?m s" fd rs g] deliver_input [OF assms(4)] assms(5-7) left b
      reply_ready [of fd ?s2 4 b]
    by (simp add: close_client_def answer_def mounting_def left_def Let_def)
  moreover have "client_mount nm (with_answer (field4 (-1)) c)
      = Inr (-1, (after_call ?m 4 (with_answer (field4 (-1)) c))\<lparr>session_id := -1\<rparr>)"
    using client_mount_eq [of "with_answer (field4 (-1)) c" nm "-1" "[]"] assms(1-3,5) short by simp
  ultimately show ?thesis
    using assms(3,4) by (simp add: answer_def mounting_def input_def left_def)
qed

lemma remote_mount_refused_witness:
  "\<exists>c' s' p. serve garbage0 (deliver (mount_msg (padded ''/tmp/k'')) (serving 10 boot)) = Inr s'
    \<and> closed_pipes s' = (14, p) # closed_pipes (serving 10 boot)
    \<and> client_mount (padded ''/tmp/k'') (with_answer (sent p) client0) = Inr (-1, c') \<and> open_sessions s' = 10"
  using remote_mount_refused [of client0 "serving 10 boot" "padded ''/tmp/k''" 14 "map int [15..<20]" garbage0]
    serving_first_open [of 10 boot]
  by auto

text \<open>
  When all positions are taken but fewer than ten sessions are counted (the main thread counts an
  unmount before the slave frees its position), a mount is refused with \<open>global_mutex\<close> left locked, and the
  next mount or unmount that gets as far as that mutex deadlocks the main thread.
\<close>

lemma serve_mount_full:
  assumes "input (mount_msg nm @ rest) s" and "length nm = NAME_SIZE"
    and "first_open (open_rets s) = Some (fd, rs)" and "open_sessions s \<noteq> int MAX_SESSIONS"
    and "\<not> global_locked s" and "\<forall>i<MAX_SESSIONS. free_sessions s i = TAKEN_POS"
  shows "serve g s = Inr (answer fd (field4 (-1)) ((mounting fd rs (left rest s))\<lparr>global_locked := True\<rparr>))"
proof -
  let ?s2 = "mounting fd rs (left rest s)"
  have short: "short_int (-1)" by (simp add: short_int_def)
  obtain b where b: "int_text sizeof_int (-1) = Inr b" "length b = 4" "take 4 b = field4 (-1)"
    using sprintf_field4 [OF short, of 4] by (auto simp: int_text_def)
  have full: "first_index (\<lambda>i. free_sessions s i = FREE_POS) 0 MAX_SESSIONS = None"
    using assms(6) by (simp add: first_index_eq_None)
  have "fd_ready fd (?s2\<lparr>global_locked := True\<rparr>)" by (simp add: fd_ready_def mounting_def)
  then show ?thesis
    using serve_mount_start [OF assms(1-3), of g] assms(4,5) b reply_ready [of fd "?s2\<lparr>global_locked := True\<rparr>" 4 b] full
    by (simp add: find_free_pos_def take_free_pos_def lock_global_def mounting_def Let_def)
qed

lemma serve_mount_locked:
  assumes "input (mount_msg nm @ rest) s" and "length nm = NAME_SIZE"
    and "first_open (open_rets s) = Some (fd, rs)" and "open_sessions s \<noteq> int MAX_SESSIONS"
    and "global_locked s"
  shows "serve g s = Inl Self_Deadlock"
  using serve_mount_start [OF assms(1-3), of g] assms(4,5)
  by (simp add: find_free_pos_def lock_global_def mounting_def Let_def)

end
