(* ===== verification/World.thy ===== *)
theory World
  imports Protocol
begin

text \<open>
  Invariants of the whole server under every interleaving of the main thread and the slaves, for every input:
  the session table, the leaked mutex, and what a slave may touch.
\<close>

section \<open>The session table\<close>

text \<open>The counter stays in the table's range, slaves keep their numbers, and a leaked mutex means a full table.\<close>

definition table_inv :: "server \<Rightarrow> bool" where
  "table_inv s \<longleftrightarrow> 0 \<le> open_sessions s \<and> open_sessions s \<le> int MAX_SESSIONS
     \<and> (\<forall>i<MAX_SESSIONS. slave_session_id (slaves s i) = int i)
     \<and> (global_locked s \<longrightarrow> (\<forall>i<MAX_SESSIONS. free_sessions s i = TAKEN_POS))"

text \<open>What every piece of code keeps: the invariant, and a leaked mutex with the table behind it.\<close>

definition table_step :: "server \<Rightarrow> server \<Rightarrow> bool" where
  "table_step s s' \<longleftrightarrow> (table_inv s \<longrightarrow> table_inv s') \<and> (global_locked s \<longrightarrow> global_locked s'
     \<and> free_sessions s' = free_sessions s \<and> open_sessions s' = open_sessions s)"

lemma read_fserv_frame [frame_dest]: "read_fserv b n s = Inr (r, b', s') \<Longrightarrow> \<exists>p. s' = s\<lparr>fserv := p\<rparr>"
  by (auto simp: read_fserv_def andthen_eq_Inr)

lemma reply_frame [frame_dest]: "reply fd b n s = Inr (w, s') \<Longrightarrow> \<exists>c. s' = s\<lparr>clients := c\<rparr>"
  by (auto simp: reply_def andthen_eq_Inr intro: exI [of _ "clients s"] split: option.splits)

lemma plain_write_frame [frame_dest]: "plain_write fd b s = (w, s') \<Longrightarrow> \<exists>c. s' = s\<lparr>clients := c\<rparr>"
  by (auto simp: plain_write_def Let_def intro: exI [of _ "clients s"] split: option.splits prod.splits)

lemma close_client_frame [frame_dest]: "close_client fd s = (r, s') \<Longrightarrow> \<exists>c h. s' = s\<lparr>clients := c, closed_pipes := h\<rparr>"
  by (cases s) (auto simp: close_client_def split: option.splits)

lemma slait_open_frame [frame_dest]:
  "slait_open s = Inr (fd, s') \<Longrightarrow> \<exists>r c. s' = s\<lparr>open_rets := r, clients := c\<rparr>"
  by (auto simp: slait_open_def split: option.splits)

lemma slot_frame [frame_dest]: "slot v = Inr i \<Longrightarrow> i < MAX_SESSIONS \<and> v = int i"
  by (auto simp: slot_def split: if_splits)

lemma lock_global_frame [frame_dest]:
  "lock_global e s = Inr s' \<Longrightarrow> \<not> global_locked s \<and> s' = s\<lparr>global_locked := True\<rparr>"
  by (auto simp: lock_global_def split: if_splits)

lemma find_free_pos_frame [frame_dest]:
  "find_free_pos s = Inr (i, s') \<Longrightarrow> \<not> global_locked s
     \<and> (i = -1 \<and> s' = s\<lparr>global_locked := True\<rparr> \<and> (\<forall>j<MAX_SESSIONS. free_sessions s j = TAKEN_POS)
        \<or> (\<exists>j<MAX_SESSIONS. i = int j
             \<and> s' = s\<lparr>free_sessions := (free_sessions s)(j := TAKEN_POS), global_locked := False\<rparr>))"
  by (auto simp: find_free_pos_def take_free_pos_def andthen_eq_Inr lock_global_def unlock_global_def
      first_index_eq_None first_index_eq_Some split: if_splits option.splits)

lemmas table_defs = table_step_def table_inv_def hand_over_def increment_counter_def unlock_global_def
  Let_def andthen_eq_Inr

text \<open>A mount after the pipe of the client has been opened.\<close>

definition mount_rest :: "int \<Rightarrow> server \<Rightarrow> fault + server" where
  "mount_rest fcli s =
     andthen (find_free_pos s) (\<lambda>(free_session_id, s3).
       if free_session_id = -1 then
         andthen (int_text sizeof_int free_session_id) (\<lambda>txt.
         andthen (reply fcli txt sizeof_int s3) (\<lambda>(w, s4). Inr s4))
       else
         andthen (slot free_session_id) (\<lambda>i.
         let s4 = hand_over i (\<lambda>q. q\<lparr>r_op_code := int TFS_OP_CODE_MOUNT, r_fcli := fcli\<rparr>) s3 in
         andthen (lock_global Self_Deadlock s4) (\<lambda>s5.
           Inr (unlock_global (s5\<lparr>open_sessions := open_sessions s5 + 1\<rparr>)))))"

lemma mount_rest_table:
  assumes "mount_rest fd s = Inr s'" and "open_sessions s \<noteq> int MAX_SESSIONS"
  shows "table_step s s'"
proof -
  from assms(1) obtain i s3 where find: "find_free_pos s = Inr (i, s3)"
    by (auto simp: mount_rest_def andthen_eq_Inr)
  with assms show ?thesis
    using find_free_pos_frame [OF find]
    by (elim conjE disjE exE)
      (auto simp: mount_rest_def table_defs slot_def lock_global_def dest!: reply_frame split: if_splits)
qed

definition mount_refuse :: "int \<Rightarrow> server \<Rightarrow> fault + server" where
  "mount_refuse fcli s =
     andthen (int_text sizeof_int (-1)) (\<lambda>txt.
     andthen (reply fcli txt sizeof_int s) (\<lambda>(w, s3).
       let (r, s4) = close_client fcli s3 in
       if r = -1 then Inl (Exited 1) else Inr s4))"

lemma mount_refuse_table:
  assumes "mount_refuse fd s = Inr s'"
  shows "table_step s s'"
proof -
  from assms obtain tx a where "reply fd tx sizeof_int s = Inr a"
      and rest: "(case a of (w, s3) \<Rightarrow> let (r, s4) = close_client fd s3 in
        if r = -1 then Inl (Exited 1) else Inr s4) = Inr s'"
    unfolding mount_refuse_def andthen_eq_Inr by blast
  then obtain w s3 where a: "reply fd tx sizeof_int s = Inr (w, s3)" "a = (w, s3)" by (cases a) simp
  obtain r s4 where close: "close_client fd s3 = (r, s4)" by fastforce
  with rest a have "s' = s4" by (simp split: if_splits)
  with reply_frame [OF a(1)] close_client_frame [OF close] show ?thesis
    by (auto simp: table_step_def table_inv_def)
qed

lemma mount_parts:
  "tfs_handle_mount s =
     andthen (read_fserv (replicate NAME_SIZE NUL) NAME_SIZE s) (\<lambda>(ret, name, s1).
     andthen (exit_if_failed ret) (\<lambda>_.
     andthen (slait_open s1) (\<lambda>(fcli, s2).
     if open_sessions s2 = int MAX_SESSIONS then mount_refuse fcli s2 else mount_rest fcli s2)))"
  unfolding tfs_handle_mount_def mount_refuse_def mount_rest_def by (rule refl)

lemma mount_table:
  assumes "tfs_handle_mount s = Inr s'"
  shows "table_step s s'"
proof -
  from assms obtain a where a: "read_fserv (replicate NAME_SIZE NUL) NAME_SIZE s = Inr a"
      "(case a of (ret, name, s1) \<Rightarrow> andthen (exit_if_failed ret) (\<lambda>_. andthen (slait_open s1) (\<lambda>(fcli, s2).
        if open_sessions s2 = int MAX_SESSIONS then mount_refuse fcli s2 else mount_rest fcli s2))) = Inr s'"
    unfolding mount_parts andthen_eq_Inr by blast
  obtain r nm s1 where s1: "a = (r, nm, s1)" by (cases a) simp
  with a(2) obtain b where b: "slait_open s1 = Inr b" "(case b of (fcli, s2) \<Rightarrow>
        if open_sessions s2 = int MAX_SESSIONS then mount_refuse fcli s2 else mount_rest fcli s2) = Inr s'"
    unfolding s1 prod.case andthen_eq_Inr by blast
  obtain fd s2 where s2: "b = (fd, s2)" by (cases b) simp
  from a(1) b(1) obtain f o' c where "s2 = s\<lparr>fserv := f, open_rets := o', clients := c\<rparr>"
    unfolding s1 s2 by (auto dest!: read_fserv_frame slait_open_frame)
  then have "table_step s s2" by (simp add: table_step_def table_inv_def)
  moreover have "table_step s2 s'"
    using b(2) mount_refuse_table mount_rest_table by (auto simp: s2 split: if_splits)
  ultimately show ?thesis by (simp add: table_step_def)
qed

lemma unmount_table: "tfs_handle_unmount s = Inr s' \<Longrightarrow> table_step s s'"
  by (auto simp: tfs_handle_unmount_def table_defs dest!: frame_dest split: if_splits)

lemma read_table: "tfs_handle_read s = Inr s' \<Longrightarrow> table_step s s'"
  by (auto simp: tfs_handle_read_def table_defs dest!: frame_dest split: if_splits)

lemma write_table: "tfs_handle_write g s = Inr s' \<Longrightarrow> table_step s s'"
  by (auto simp: tfs_handle_write_def table_defs dest!: frame_dest split: if_splits)

lemma close_table: "tfs_handle_close g s = Inr s' \<Longrightarrow> table_step s s'"
  by (auto simp: tfs_handle_close_def table_defs dest!: frame_dest split: if_splits)

lemma open_table: "tfs_handle_open s = Inr s' \<Longrightarrow> table_step s s'"
  by (auto simp: tfs_handle_open_def table_defs dest!: frame_dest split: if_splits)

lemma shutdown_table: "tfs_handle_shutdown_after_all_close s = Inr s' \<Longrightarrow> table_step s s'"
  by (auto simp: tfs_handle_shutdown_after_all_close_def table_defs dest!: frame_dest split: if_splits)

lemma table_step_refl: "table_step s s"
  by (simp add: table_step_def)

lemma reopen_frame: "reopen_call s = (r, s') \<Longrightarrow> \<exists>x. s' = s\<lparr>reopen_rets := x\<rparr>"
  by (auto simp: reopen_call_def intro: exI [of _ "reopen_rets s"] split: list.splits)

lemma dispatch_table: "dispatch g c s = Inr s' \<Longrightarrow> table_step s s'"
  by (auto simp: dispatch_def split: if_splits
      intro: table_step_refl mount_table unmount_table read_table write_table close_table open_table shutdown_table)

lemma serve_table:
  assumes "serve g s = Inr s'"
  shows "table_step s s'"
proof -
  from assms obtain n b s1 where read: "read_fserv (replicate SIZE NUL) 1 s = Inr (n, b, s1)"
    by (auto simp: serve_def andthen_eq_Inr)
  then have s1: "table_step s s1" by (auto simp: table_step_def table_inv_def dest!: read_fserv_frame)
  obtain r2 s2 r3 s3 where re: "reopen_call s1 = (r2, s2)" "reopen_call s2 = (r3, s3)" by fastforce
  have s3: "table_step s s2" "table_step s (s3\<lparr>fserv := f\<rparr>)" for f
    using s1 reopen_frame [OF re(1)] reopen_frame [OF re(2)]
    by (auto simp: table_step_def table_inv_def)
  have "s' = s3\<lparr>fserv := (fserv s3)\<lparr>writers_closed := False\<rparr>\<rparr> \<or> s' = s2 \<or> (\<exists>c. dispatch g c s1 = Inr s')"
    using assms read re by (auto simp: serve_def andthen_eq_Inr split: if_splits)
  with s1 s3 dispatch_table show ?thesis by (auto simp: table_step_def)
qed

section \<open>The slaves\<close>

text \<open>
  What slave \<open>i\<close> leaves alone: the sessions, requests and positions of the others, and every pipe but its own
  (\<open>own\<close>).
\<close>

definition own_only :: "nat \<Rightarrow> int set \<Rightarrow> server \<Rightarrow> server \<Rightarrow> bool" where
  "own_only i own s s' \<longleftrightarrow> (\<forall>fd. fd \<notin> own \<longrightarrow> clients s' fd = clients s fd)
     \<and> (\<forall>j. j \<noteq> i \<longrightarrow> sessions s' j = sessions s j \<and> slaves s' j = slaves s j
          \<and> free_sessions s' j = free_sessions s j)
     \<and> open_sessions s' = open_sessions s \<and> fserv s' = fserv s \<and> wake_up (slaves s' i) = wake_up (slaves s i)"

lemma reply_own: "reply fd b n s = Inr (w, s') \<Longrightarrow> \<exists>c. s' = s\<lparr>clients := c\<rparr> \<and> (\<forall>x. x \<noteq> fd \<longrightarrow> c x = clients s x)"
  by (auto simp: reply_def andthen_eq_Inr intro: exI [of _ "clients s"] split: option.splits)

lemma plain_write_own:
  "plain_write fd b s = (w, s') \<Longrightarrow> \<exists>c. s' = s\<lparr>clients := c\<rparr> \<and> (\<forall>x. x \<noteq> fd \<longrightarrow> c x = clients s x)"
  by (auto simp: plain_write_def Let_def intro: exI [of _ "clients s"] split: option.splits prod.splits)

lemma close_client_own:
  "close_client fd s = (r, s') \<Longrightarrow> \<exists>c h. s' = s\<lparr>clients := c, closed_pipes := h\<rparr> \<and> (\<forall>x. x \<noteq> fd \<longrightarrow> c x = clients s x)"
  by (cases s) (auto simp: close_client_def split: option.splits)

lemmas slave_defs = own_only_def table_step_def table_inv_def Let_def andthen_eq_Inr update_session_def
  update_request_def unlock_global_def

lemma thread_mount_step:
  "tfs_thread_mount i s = Inr s' \<Longrightarrow> own_only i {r_fcli (request (slaves s i))} s s' \<and> table_step s s'"
  by (auto simp: tfs_thread_mount_def slave_defs dest!: lock_global_frame reply_own split: if_splits)

lemma thread_unmount_step:
  assumes "tfs_thread_unmount i s = Inr s'"
  shows "own_only i {s_fhandler (sessions s i)} s s' \<and> table_step s s'"
proof -
  obtain r s1 where close: "close_client (s_fhandler (sessions s i)) s = (r, s1)" by fastforce
  with assms have "free_pos i (update_session i (\<lambda>_. empty_session) s1) = Inr s'"
    by (auto simp: tfs_thread_unmount_def split: if_splits)
  with close_client_own [OF close] show ?thesis
    by (auto simp: free_pos_def release_pos_def slave_defs dest!: lock_global_frame)
qed

lemma thread_open_step:
  "tfs_thread_open i s = Inr s' \<Longrightarrow> own_only i {s_fhandler (sessions s i)} s s' \<and> table_step s s'"
  by (auto simp: tfs_thread_open_def slave_defs dest!: reply_own)

lemma thread_close_step:
  assumes "tfs_thread_close i s = Inr s'"
  shows "own_only i {s_fhandler (sessions s i)} s s' \<and> table_step s s'"
proof -
  from assms obtain f b w where "plain_write (s_fhandler (sessions s i)) b (s\<lparr>ops := f\<rparr>) = (w, s')"
    by (auto simp: tfs_thread_close_def andthen_eq_Inr Let_def split: prod.splits) (metis prod.collapse)
  from plain_write_own [OF this] show ?thesis by (auto simp: slave_defs)
qed

lemma thread_write_step:
  assumes "tfs_thread_write i s = Inr s'"
  shows "own_only i {s_fhandler (sessions s i)} s s' \<and> table_step s s'"
proof -
  let ?fd = "s_fhandler (sessions s i)" and ?s = "update_request i (\<lambda>q. q\<lparr>r_to_write := None\<rparr>) s"
  have same: "sessions ?s = sessions s" by (simp add: update_request_def)
  have "(\<exists>b n w. reply ?fd b n ?s = Inr (w, s')) \<or> (\<exists>f b n w. reply ?fd b n (?s\<lparr>ops := f\<rparr>) = Inr (w, s'))"
    using assms by (auto simp: tfs_thread_write_def andthen_eq_Inr Let_def same split: if_splits option.splits)
  then show ?thesis
  proof (elim disjE exE)
    fix b n w assume "reply ?fd b n ?s = Inr (w, s')"
    from reply_own [OF this] show ?thesis by (auto simp: slave_defs)
  next
    fix f b n w assume "reply ?fd b n (?s\<lparr>ops := f\<rparr>) = Inr (w, s')"
    from reply_own [OF this] show ?thesis by (auto simp: slave_defs)
  qed
qed

lemma thread_read_step:
  assumes "tfs_thread_read g i s = Inr s'"
  shows "own_only i {s_fhandler (sessions s i)} s s' \<and> table_step s s'"
proof -
  let ?fd = "s_fhandler (sessions s i)"
  have "(\<exists>b n w. reply ?fd b n s = Inr (w, s')) \<or> (\<exists>f b n w. reply ?fd b n (s\<lparr>ops := f\<rparr>) = Inr (w, s'))
      \<or> (\<exists>f b w. plain_write ?fd b (s\<lparr>ops := f\<rparr>) = (w, s'))"
    using assms by (auto simp: tfs_thread_read_def andthen_eq_Inr Let_def split: if_splits prod.splits)
  then show ?thesis by (auto simp: slave_defs dest!: reply_own plain_write_own)
qed

text \<open>The pipe a slave answers on.\<close>

definition own_pipe :: "nat \<Rightarrow> server \<Rightarrow> int" where
  "own_pipe i s = (if r_op_code (request (slaves s i)) = int TFS_OP_CODE_MOUNT
     then r_fcli (request (slaves s i)) else s_fhandler (sessions s i))"

lemma shutdown_begin_step: "own_only i own s (shutdown_begin s) \<and> table_step s (shutdown_begin s)"
  by (simp add: shutdown_begin_def slave_defs)

lemma solve_step:
  assumes "solve g i s = Inr s'"
  shows "own_only i {own_pipe i s} s s' \<and> table_step s s'"
proof -
  have "own_only i {own_pipe i s} s s \<and> table_step s s" by (simp add: own_only_def table_step_refl)
  with assms show ?thesis
    by (auto simp: solve_def own_pipe_def Let_def shutdown_begin_step split: if_splits
        dest!: thread_mount_step thread_unmount_step thread_open_step thread_close_step thread_write_step
          thread_read_step)
qed

lemma shutdown_end_step:
  assumes "shutdown_end i s = Inr s'"
  shows "own_only i {s_fhandler (sessions s i)} s s' \<and> table_step s s'"
proof -
  let ?fd = "s_fhandler (sessions s i)"
  obtain ret f where d: "tfs_destroy (ops s) = (ret, f)" by fastforce
  with assms have "andthen (int_text SIZE 0) (\<lambda>b. andthen (reply ?fd b sizeof_int (s\<lparr>ops := f\<rparr>)) (\<lambda>(w, s2).
      let (write_size, s3) = plain_write ?fd (take sizeof_int b) s2 in
      if write_size = -1 then Inl (Exited 1) else Inr s3)) = Inr s'"
    by (simp add: shutdown_end_def Let_def split: if_splits)
  then obtain b a where ba: "reply ?fd b sizeof_int (s\<lparr>ops := f\<rparr>) = Inr a" "(case a of (w, s2) \<Rightarrow>
      let (write_size, s3) = plain_write ?fd (take sizeof_int b) s2 in
      if write_size = -1 then Inl (Exited 1) else Inr s3) = Inr s'"
    unfolding andthen_eq_Inr by blast
  obtain w s2 where a: "a = (w, s2)" by (cases a)
  obtain ws s3 where w: "plain_write ?fd (take sizeof_int b) s2 = (ws, s3)" by fastforce
  with ba(2) have "s' = s3" by (simp add: a split: if_splits)
  with reply_own [OF ba(1) [unfolded a]] plain_write_own [OF w] show ?thesis by (auto simp: slave_defs)
qed

lemma take_request_table: "take_request i s = Some s' \<Longrightarrow> table_step s s'"
  by (auto simp: take_request_def table_step_def table_inv_def split: if_splits)

section \<open>Every step\<close>

definition world_start :: "world \<Rightarrow> bool" where
  "world_start w \<longleftrightarrow> (\<exists>s. \<not> global_locked s \<and> srv w = server_init s) \<and> slave_at w = (\<lambda>_. Waiting) \<and> \<not> halted w"

definition world_inv :: "world \<Rightarrow> bool" where
  "world_inv w \<longleftrightarrow> table_inv (srv w) \<and> (\<forall>i. slave_at w i \<noteq> Waiting \<longrightarrow> i < MAX_SESSIONS)"

lemma world_step_table: "world_step w w' \<Longrightarrow> table_step (srv w) (srv w')"
  by (induction rule: world_step.induct)
    (auto simp: table_step_refl dest: serve_table take_request_table solve_step shutdown_end_step)

lemma world_step_slaves:
  "world_step w w' \<Longrightarrow> slave_at w' i \<noteq> Waiting \<Longrightarrow> slave_at w i \<noteq> Waiting \<or> i < MAX_SESSIONS"
  by (induction rule: world_step.induct) (auto split: if_splits)

interpretation world: step_invariant world_step world_start world_inv
proof
  fix w assume "world_start w"
  then show "world_inv w"
    by (auto simp: world_start_def world_inv_def table_inv_def server_init_def init_slave_def)
next
  fix w w' assume "world_inv w" and "world_step w w'"
  then show "world_inv w'"
    using world_step_table world_step_slaves unfolding world_inv_def table_step_def by blast
qed

lemma locked_reaches:
  "reaches world_step w w' \<Longrightarrow> global_locked (srv w) \<Longrightarrow> global_locked (srv w')
     \<and> free_sessions (srv w') = free_sessions (srv w) \<and> open_sessions (srv w') = open_sessions (srv w)"
proof (induction rule: reaches.induct)
  case (reaches_step t u)
  then show ?case using world_step_table [OF reaches_step.hyps(2)] by (simp add: table_step_def)
qed simp

end
