(* ===== verification/Leak_Run.thy ===== *)
theory Leak_Run
  imports Sessions World
begin

text \<open>
  A run of the server from its start to the deadlock on \<open>global_mutex\<close>: ten clients mount and are served, the
  first unmounts, and two more mount before its slave has come to free the position.
\<close>

definition pipe_name :: string where
  "pipe_name = padded ''/tmp/client''"

text \<open>What the clients send.\<close>

definition leak_input :: "nat \<Rightarrow> string" where
  "leak_input k = concat (replicate k (mount_msg pipe_name)) @ unmount_msg 0
     @ mount_msg pipe_name @ mount_msg pipe_name"

definition world_on :: "string \<Rightarrow> world" where
  "world_on bs = \<lparr>srv = deliver bs server0, slave_at = (\<lambda>_. Waiting), halted = False\<rparr>"

text \<open>After \<open>k\<close> mounts.\<close>

definition k_mounted :: "nat \<Rightarrow> world \<Rightarrow> bool" where
  "k_mounted k w \<longleftrightarrow> reaches world_step (world_on (leak_input 10)) w \<and> \<not> halted w
     \<and> slave_at w = (\<lambda>_. Waiting) \<and> input (leak_input (10 - k)) (srv w)
     \<and> (\<forall>i<MAX_SESSIONS. free_sessions (srv w) i = (if i < k then TAKEN_POS else FREE_POS))
     \<and> open_sessions (srv w) = int k \<and> \<not> global_locked (srv w) \<and> open_rets (srv w) = map int [k + 4..<20]
     \<and> (\<forall>i<MAX_SESSIONS. slave_session_id (slaves (srv w) i) = int i
          \<and> r_name (request (slaves (srv w) i)) = replicate NAME_SIZE NUL)"

lemma k_mounted_0: "k_mounted 0 (world_on (leak_input 10))"
  by (simp add: k_mounted_def world_on_def reaches_refl server0_def server_init_def static_server_def
      init_slave_def input_def deliver_def)

lemma k_mounted_Suc:
  assumes "k_mounted k w" and "k < 10"
  shows "\<exists>w'. k_mounted (Suc k) w'"
proof -
  let ?s = "srv w" and ?rs = "map int [Suc k + 4..<20]" and ?rest = "leak_input (10 - Suc k)"
  have "10 - k = Suc (10 - Suc k)" using assms(2) by simp
  then have input: "input (mount_msg pipe_name @ ?rest) ?s"
    using assms(1) by (simp add: k_mounted_def leak_input_def)
  have "can_mount k (4 + int k) ?rs ?s"
    using assms by (simp add: can_mount_def k_mounted_def upt_conv_Cons add.commute)
  then obtain s1 where s1: "serve garbage0 ?s = Inr s1" "take_request k s1 = Some (mount_taken k (4 + int k) ?rs ?rest ?s)"
      "solve garbage0 k (mount_taken k (4 + int k) ?rs ?rest ?s) = Inr (mounted k (4 + int k) ?rs ?rest ?s)"
      "r_op_code (request (slaves (mount_taken k (4 + int k) ?rs ?rest ?s) k)) = 1"
    using mount_round [OF input, of k "4 + int k" ?rs garbage0] by (auto simp: pipe_name_def)
  obtain w1 where w1: "w1 = w\<lparr>srv := s1\<rparr>" by simp
  obtain w2 where w2: "w2 = w1\<lparr>srv := mount_taken k (4 + int k) ?rs ?rest ?s, slave_at := (slave_at w1)(k := Solving)\<rparr>"
    by simp
  obtain w3 where w3: "w3 = w2\<lparr>srv := mounted k (4 + int k) ?rs ?rest ?s, slave_at := (slave_at w2)(k := Waiting)\<rparr>"
    by simp
  have w: "\<not> halted w" "slave_at w = (\<lambda>_. Waiting)" "reaches world_step (world_on (leak_input 10)) w"
    using assms(1) by (simp_all add: k_mounted_def)
  have "world_step w w1" unfolding w1 using w(1) s1(1) by (rule main_round)
  moreover have "world_step w1 w2"
    using wake [of w1 k] w s1(2) assms(2) by (simp add: w1 w2)
  moreover have "world_step w2 w3"
    using carry_out [of w2 k garbage0] w s1(3,4) by (simp add: w1 w2 w3)
  ultimately have "reaches world_step (world_on (leak_input 10)) w3"
    using w(3) reaches_step by metis
  moreover have "\<not> halted w3" "slave_at w3 = (\<lambda>_. Waiting)"
      "srv w3 = mounted k (4 + int k) ?rs ?rest ?s"
    using w by (simp_all add: w1 w2 w3 fun_eq_iff)
  ultimately have "k_mounted (Suc k) w3"
    using assms by (simp add: k_mounted_def input_def)
  then show ?thesis by blast
qed

lemma ten_mounted: "\<exists>w. k_mounted 10 w"
proof -
  have "k \<le> 10 \<Longrightarrow> \<exists>w. k_mounted k w" for k
    by (induction k) (use k_mounted_0 k_mounted_Suc in auto)
  then show ?thesis by simp
qed

text \<open>Then the unmount and a mount, by the main thread alone.\<close>

lemma leak_run:
  "\<exists>w. reaches world_step (world_on (leak_input 10)) w \<and> \<not> halted w \<and> global_locked (srv w)
     \<and> serve g (srv w) = Inl Self_Deadlock"
proof -
  obtain w where k: "k_mounted 10 w" using ten_mounted by blast
  let ?m = "mount_msg pipe_name" and ?s = "srv w"
  let ?s1 = "(hand_over 0 (\<lambda>q. q\<lparr>r_op_code := 2\<rparr>) (left (?m @ ?m) ?s))\<lparr>open_sessions := 9, global_locked := False\<rparr>"
  have "input (unmount_msg (int 0) @ ?m @ ?m) ?s" using k by (simp add: k_mounted_def leak_input_def)
  with serve_unmount [OF this, of garbage0] k have 1: "serve garbage0 ?s = Inr ?s1"
    by (simp add: k_mounted_def)
  let ?s2 = "answer 14 (field4 (-1)) ((mounting 14 (map int [15..<20]) (left ?m ?s1))\<lparr>global_locked := True\<rparr>)"
  have s1: "input (?m @ ?m) ?s1" "first_open (open_rets ?s1) = Some (14, map int [15..<20])"
      "open_sessions ?s1 \<noteq> int MAX_SESSIONS" "\<not> global_locked ?s1"
      "\<forall>i<MAX_SESSIONS. free_sessions ?s1 i = TAKEN_POS"
    using k by (simp_all add: k_mounted_def hand_over_def input_def left_def upt_conv_Cons)
  have nm: "length pipe_name = NAME_SIZE" by (simp add: pipe_name_def)
  have 2: "serve garbage0 ?s1 = Inr ?s2"
    by (rule serve_mount_full [OF s1(1) nm s1(2-5)])
  have "input (?m @ []) ?s2" "first_open (open_rets ?s2) = Some (15, map int [16..<20])"
      "open_sessions ?s2 \<noteq> int MAX_SESSIONS" "global_locked ?s2"
    using s1 by (simp_all add: input_def answer_def mounting_def left_def hand_over_def upt_conv_Cons)
  from serve_mount_locked [OF this(1) nm this(2-4)] this(4)
  have 3: "serve g (srv (w\<lparr>srv := ?s2\<rparr>)) = Inl Self_Deadlock" "global_locked (srv (w\<lparr>srv := ?s2\<rparr>))" by simp_all
  have halted: "\<not> halted w" using k by (simp add: k_mounted_def)
  have "world_step w (w\<lparr>srv := ?s1\<rparr>)" using main_round [OF halted 1] .
  moreover have "world_step (w\<lparr>srv := ?s1\<rparr>) (w\<lparr>srv := ?s2\<rparr>)"
    using main_round [of "w\<lparr>srv := ?s1\<rparr>" garbage0 ?s2] halted 2 by simp
  ultimately have "reaches world_step (world_on (leak_input 10)) (w\<lparr>srv := ?s2\<rparr>)"
    using k by (auto simp: k_mounted_def intro: reaches_step)
  with 3 halted show ?thesis by (intro exI [of _ "w\<lparr>srv := ?s2\<rparr>"]) simp
qed

lemma world_on_start: "world_start (world_on bs)"
proof -
  have "deliver bs (server_init s) = server_init (deliver bs s)" for s
    by (simp add: server_init_def deliver_def cong: if_cong)
  moreover have "\<not> global_locked (deliver bs static_server)" by (simp add: static_server_def)
  ultimately have "\<exists>s. \<not> global_locked s \<and> deliver bs server0 = server_init s"
    unfolding server0_def by blast
  then show ?thesis by (auto simp: world_start_def world_on_def)
qed

end
