(* ===== verification/Server_Properties.thy ===== *)
theory Server_Properties
  imports Leak_Run
begin

text \<open>
  The properties of client and server together: histories of requests, the invariants of the
  whole server, and the requests on which the two disagree.
\<close>

section \<open>Histories of requests\<close>

text \<open>C2: The file system seen through the server: for up to ten clients with a session each, every history of
  their admissible \<open>tfs_open\<close>, \<open>tfs_close\<close>, \<open>tfs_write\<close> (of four bytes) and \<open>tfs_read\<close> calls, in any order, runs
  without fault, every call sends its message and gets its own answer, the answers are those of the
  specification of the file system, and clients and server stay in step.\<close>

theorem remote_histories_refine_the_specification:
  assumes "net_inv n" and "ok_ops remote_step remote_ok n xs"
  shows "\<exists>rs t. run_ops remote_step n xs = Inr (rs, t) \<and> net_inv t
    \<and> accepts net_spec (net_abs n) xs rs (net_abs t)"
  by (rule remote.history_refines [OF assms])

lemma remote_histories_refine_the_specification_witness:
  "\<exists>rs t. run_ops remote_step (client_of, serving 2 boot_f)
      [(0, garbage0, Write 0 ''AAA!''), (1, garbage0, Open ''/f'' 0)] = Inr (rs, t)
    \<and> accepts net_spec (net_abs (client_of, serving 2 boot_f))
      [(0, garbage0, Write 0 ''AAA!''), (1, garbage0, Open ''/f'' 0)] rs (net_abs t)"
proof -
  have inv: "net_inv (client_of, serving 2 boot_f)"
    by (rule serving_net_inv) (simp_all add: boot_f_inv)
  have ok: "remote_ok (client_of, serving 2 boot_f) (0, garbage0, Write 0 ''AAA!'')"
    by (simp add: boot_f_handle)
  obtain r cs s where step: "remote_step (client_of, serving 2 boot_f) (0, garbage0, Write 0 ''AAA!'')
      = Inr (r, (cs, s))" "free_sessions s = free_sessions (serving 2 boot_f)"
    using remote_simulation [OF inv ok] by blast
  then have "remote_ok (cs, s) (1, garbage0, Open ''/f'' 0)"
    by (simp add: path_f truncate_safe_def)
  with ok step(1) have "ok_ops remote_step remote_ok (client_of, serving 2 boot_f)
      [(0, garbage0, Write 0 ''AAA!''), (1, garbage0, Open ''/f'' 0)]"
    by (simp split: sum.split)
  from remote_histories_refine_the_specification [OF inv this] show ?thesis by blast
qed

section \<open>Invariants of the server\<close>

text \<open>C12: A slave works only for its own session: what it does to carry out a request changes no pipe but
  the one it answers on, no session, request or position of another slave, neither the server's input nor
  the number of open sessions.\<close>

theorem slaves_keep_to_their_session:
  assumes "solve g i s = Inr s'"
  shows "(\<forall>fd. fd \<noteq> own_pipe i s \<longrightarrow> clients s' fd = clients s fd)
    \<and> (\<forall>j. j \<noteq> i \<longrightarrow> sessions s' j = sessions s j \<and> slaves s' j = slaves s j
         \<and> free_sessions s' j = free_sessions s j)
    \<and> fserv s' = fserv s \<and> open_sessions s' = open_sessions s"
  using solve_step [OF assms] by (simp add: own_only_def)

lemma slaves_keep_to_their_session_witness:
  "\<exists>s'. solve garbage0 0 (update_request 0 (\<lambda>q. q\<lparr>r_op_code := 2\<rparr>) (serving 2 boot)) = Inr s'
    \<and> clients s' 5 = clients (serving 2 boot) 5 \<and> free_sessions s' 1 = TAKEN_POS"
proof -
  let ?s = "update_request 0 (\<lambda>q. q\<lparr>r_op_code := 2\<rparr>) (serving 2 boot)"
  have s: "s_fhandler (sessions ?s 0) = 4" "r_op_code (request (slaves ?s 0)) = 2" "clients ?s 4 \<noteq> None"
      "clients ?s 5 = clients (serving 2 boot) 5" "free_sessions ?s 1 = TAKEN_POS" "\<not> global_locked ?s"
    using serving_simps(5) by (simp_all add: update_request_def) (simp add: serving_def)
  from solve_unmount [OF s(2,1,3,6)] obtain s' where solve: "solve garbage0 0 ?s = Inr s'" by blast
  from slaves_keep_to_their_session [OF this] s solve show ?thesis by (auto simp: own_pipe_def)
qed

text \<open>C7: In every state the server reaches, under every interleaving and for every input: the number
  of open sessions is between 0 and ten, a slave that is not waiting is one of the ten, and
  \<open>global_mutex\<close> is left locked only with all ten positions taken.\<close>

theorem session_table_invariant:
  assumes "world_start w" and "reaches world_step w w'"
  shows "0 \<le> open_sessions (srv w') \<and> open_sessions (srv w') \<le> 10
    \<and> (\<forall>i. slave_at w' i \<noteq> Waiting \<longrightarrow> i < 10)
    \<and> (global_locked (srv w') \<longrightarrow> (\<forall>i<10. free_sessions (srv w') i = TAKEN_POS))"
  using world.inv_reachable [OF assms] by (simp add: world_inv_def table_inv_def)

lemma session_table_invariant_witness:
  "\<exists>w. reaches world_step (world_on (leak_input 10)) w \<and> global_locked (srv w)
    \<and> (\<forall>i<10. free_sessions (srv w) i = TAKEN_POS)"
proof -
  obtain w where w: "reaches world_step (world_on (leak_input 10)) w" "global_locked (srv w)"
    using leak_run by blast
  with session_table_invariant [OF world_on_start w(1)] show ?thesis by blast
qed

text \<open>C28: The leak of \<open>global_mutex\<close> is for ever: once it is left locked, in every later state it is
  locked, all positions and the number of sessions are as they were, and no slave gets through the end of
  a session, so no position becomes free again.\<close>

theorem leaked_mutex_is_permanent:
  assumes "global_locked (srv w)" and "reaches world_step w w'"
  shows "global_locked (srv w') \<and> free_sessions (srv w') = free_sessions (srv w)
    \<and> open_sessions (srv w') = open_sessions (srv w)
    \<and> tfs_thread_unmount i (srv w') \<in> {Inl Blocked, Inl (Exited 1)}"
proof -
  have locked: "global_locked (srv w')" using locked_reaches [OF assms(2,1)] by simp
  obtain r s where close: "close_client (s_fhandler (sessions (srv w') i)) (srv w') = (r, s)" by fastforce
  with close_client_frame [OF close] locked have "global_locked s" by auto
  with close have "tfs_thread_unmount i (srv w') \<in> {Inl Blocked, Inl (Exited 1)}"
    by (simp add: tfs_thread_unmount_def free_pos_def lock_global_def update_session_def)
  with locked_reaches [OF assms(2,1)] show ?thesis by simp
qed

lemma leaked_mutex_is_permanent_witness:
  "\<exists>w. global_locked (srv w) \<and> reaches world_step (world_on (leak_input 10)) w
    \<and> tfs_thread_unmount 0 (srv w) \<in> {Inl Blocked, Inl (Exited 1)}"
proof -
  obtain w where w: "reaches world_step (world_on (leak_input 10)) w" "global_locked (srv w)"
    using leak_run by blast
  with leaked_mutex_is_permanent [OF w(2) reaches_refl, of 0] show ?thesis by blast
qed

text \<open>C27: The leak happens: from the start of the server, ten clients mount and are answered, the first
  unmounts, an eleventh is refused because the slave has not freed the position yet, and with the twelfth
  the main thread waits for the mutex it holds itself.\<close>

theorem leaked_mutex_is_reachable:
  "\<exists>w. world_start (world_on (leak_input 10)) \<and> reaches world_step (world_on (leak_input 10)) w
    \<and> \<not> halted w \<and> global_locked (srv w) \<and> serve g (srv w) = Inl Self_Deadlock"
  using leak_run world_on_start by blast

end
