(* ===== verification/Concurrent_Clients.thy ===== *)
theory Concurrent_Clients
  imports Requests World
begin

text \<open>
  Clients that call at the same time. The requests of different sessions overlap: messages queue up in the
  server's pipe, the main thread hands them over while slaves still work on others, slaves finish in any order.
  Every such run is an execution of the specification, each call taking effect when its slave carries it out.
\<close>

section \<open>Clients and server\<close>

text \<open>Where a client's call is.\<close>

datatype phase = Ready | In_Pipe fs_op | With_Slave fs_op | Answered fs_op fs_ret

record grid =
  wld :: world
  cl :: "nat \<Rightarrow> client"
  phase_of :: "nat \<Rightarrow> phase"
  waiting :: "(nat \<times> fs_op) list"

abbreviation (input) server_in :: "grid \<Rightarrow> server" where "server_in G \<equiv> srv (wld G)"

definition with_server :: "server \<Rightarrow> grid \<Rightarrow> grid" where
  "with_server s G = G\<lparr>wld := (wld G)\<lparr>srv := s\<rparr>\<rparr>"

definition with_slave :: "nat \<Rightarrow> slave_pc \<Rightarrow> grid \<Rightarrow> grid" where
  "with_slave i p G = G\<lparr>wld := (wld G)\<lparr>slave_at := (slave_at (wld G))(i := p)\<rparr>\<rparr>"

definition with_phase :: "nat \<Rightarrow> phase \<Rightarrow> grid \<Rightarrow> grid" where
  "with_phase i p G = G\<lparr>phase_of := (phase_of G)(i := p)\<rparr>"

definition with_client :: "nat \<Rightarrow> client \<Rightarrow> grid \<Rightarrow> grid" where
  "with_client i c G = G\<lparr>cl := (cl G)(i := c)\<rparr>"

text \<open>The bytes that the server has written for session \<open>i\<close> between two states.\<close>

definition new_bytes :: "nat \<Rightarrow> server \<Rightarrow> server \<Rightarrow> string" where
  "new_bytes i s s' = (let fd = s_fhandler (sessions s i) in drop (length (sent_to fd s)) (sent_to fd s'))"

text \<open>What happens to a call, for the history of a run.\<close>

datatype event = Called nat fs_op | Took_Effect nat fs_op fs_ret | Came_Back nat fs_op fs_ret

text \<open>
  A client sends the message that its call writes; the main thread serves the first message; a slave takes its request; it
  carries it out, which is where the call takes effect and its answer goes to the client; the
  client returns. A call has to be admissible when it takes effect.
\<close>

inductive grid_step :: "grid \<Rightarrow> event list \<Rightarrow> grid \<Rightarrow> bool" where
  send: "phase_of G i = Ready \<Longrightarrow> i < MAX_SESSIONS \<Longrightarrow> free_sessions (server_in G) i = TAKEN_POS \<Longrightarrow> fits x
    \<Longrightarrow> sends x (cl G i) msg
    \<Longrightarrow> grid_step G [Called i x] (with_phase i (In_Pipe x) (with_server (deliver msg (server_in G))
          (G\<lparr>waiting := waiting G @ [(i, x)]\<rparr>)))"
| main: "waiting G = (i, x) # ms \<Longrightarrow> length g = SIZE \<Longrightarrow> serve g (server_in G) = Inr s
    \<Longrightarrow> grid_step G [] (with_phase i (With_Slave x) (with_server s (G\<lparr>waiting := ms\<rparr>)))"
| take: "i < MAX_SESSIONS \<Longrightarrow> slave_at (wld G) i = Waiting \<Longrightarrow> take_request i (server_in G) = Some s
    \<Longrightarrow> grid_step G [] (with_slave i Solving (with_server s G))"
| effect: "slave_at (wld G) i = Solving \<Longrightarrow> phase_of G i = With_Slave x \<Longrightarrow> fs_ok (ops (server_in G)) x
    \<Longrightarrow> solve g i (server_in G) = Inr s \<Longrightarrow> c = with_answer (new_bytes i (server_in G) s) (cl G i)
    \<Longrightarrow> client_call x c = Inr (r, c')
    \<Longrightarrow> grid_step G [Took_Effect i x r] (with_client i c (with_phase i (Answered x r)
          (with_slave i Waiting (with_server s G))))"
| return: "phase_of G i = Answered x r \<Longrightarrow> client_call x (cl G i) = Inr (r', c')
    \<Longrightarrow> grid_step G [Came_Back i x r'] (with_client i c' (with_phase i Ready G))"

text \<open>A run with its history.\<close>

inductive grid_run :: "grid \<Rightarrow> event list \<Rightarrow> grid \<Rightarrow> bool" where
  run_refl: "grid_run G [] G"
| run_step: "grid_run G tr H \<Longrightarrow> grid_step H tr' K \<Longrightarrow> grid_run G (tr @ tr') K"

lemma grid_simps [simp]:
  "wld (with_server s G) = (wld G)\<lparr>srv := s\<rparr>" "cl (with_server s G) = cl G"
  "phase_of (with_server s G) = phase_of G" "waiting (with_server s G) = waiting G"
  "wld (with_slave i p G) = (wld G)\<lparr>slave_at := (slave_at (wld G))(i := p)\<rparr>" "cl (with_slave i p G) = cl G"
  "phase_of (with_slave i p G) = phase_of G" "waiting (with_slave i p G) = waiting G"
  "wld (with_phase i q G) = wld G" "cl (with_phase i q G) = cl G"
  "phase_of (with_phase i q G) = (phase_of G)(i := q)" "waiting (with_phase i q G) = waiting G"
  "wld (with_client i c G) = wld G" "cl (with_client i c G) = (cl G)(i := c)"
  "phase_of (with_client i c G) = phase_of G" "waiting (with_client i c G) = waiting G"
  by (simp_all add: with_server_def with_slave_def with_phase_def with_client_def)

section \<open>Invariant\<close>

text \<open>One session: what its phase says about the client, the slave and its request.\<close>

definition idle_slave :: "nat \<Rightarrow> grid \<Rightarrow> bool" where
  "idle_slave i G \<longleftrightarrow> slave_at (wld G) i = Waiting \<and> \<not> wake_up (slaves (server_in G) i)"

definition phase_ok :: "nat \<Rightarrow> grid \<Rightarrow> bool" where
  "phase_ok i G \<longleftrightarrow> (case phase_of G i of
     Ready \<Rightarrow> pending (from_server (cl G i)) = [] \<and> idle_slave i G
   | In_Pipe x \<Rightarrow> fits x \<and> pending (from_server (cl G i)) = [] \<and> idle_slave i G
   | With_Slave x \<Rightarrow> fits x \<and> pending (from_server (cl G i)) = []
       \<and> (\<exists>q. request (slaves (server_in G) i) = set_request x q)
       \<and> (slave_at (wld G) i = Waiting \<and> wake_up (slaves (server_in G) i)
          \<or> slave_at (wld G) i = Solving \<and> \<not> wake_up (slaves (server_in G) i))
   | Answered x r \<Rightarrow> idle_slave i G \<and> client_gets i x r (pending (from_server (cl G i))))"

definition taken :: "nat \<Rightarrow> server \<Rightarrow> bool" where
  "taken i s \<longleftrightarrow> i < MAX_SESSIONS \<and> free_sessions s i = TAKEN_POS"

definition slot_ok :: "nat \<Rightarrow> grid \<Rightarrow> bool" where
  "slot_ok i G \<longleftrightarrow> (let s = server_in G in
     if taken i s then session_of i (s_fhandler (sessions s i)) (cl G i) s \<and> phase_ok i G
     else phase_of G i = Ready \<and> idle_slave i G)"

definition queue_ok :: "grid \<Rightarrow> bool" where
  "queue_ok G \<longleftrightarrow> input (concat (map (\<lambda>(i, x). request_msg i x) (waiting G))) (server_in G)
     \<and> distinct (map fst (waiting G))
     \<and> (\<forall>i x. (i, x) \<in> set (waiting G) \<longleftrightarrow> phase_of G i = In_Pipe x)"

definition pipes_ok :: "server \<Rightarrow> bool" where
  "pipes_ok s \<longleftrightarrow> (\<forall>i j. taken i s \<longrightarrow> taken j s \<longrightarrow> i \<noteq> j
     \<longrightarrow> s_fhandler (sessions s i) \<noteq> s_fhandler (sessions s j))"

definition grid_inv :: "grid \<Rightarrow> bool" where
  "grid_inv G \<longleftrightarrow> \<not> halted (wld G) \<and> ops_inv (ops (server_in G)) \<and> pipes_ok (server_in G) \<and> queue_ok G
     \<and> (\<forall>i. slot_ok i G)"

text \<open>All is quiet: the clients with a session are ready and no message is on its way.\<close>

definition grid_start :: "grid \<Rightarrow> bool" where
  "grid_start G \<longleftrightarrow> grid_inv G \<and> (\<forall>i. phase_of G i = Ready)"

section \<open>Preservation\<close>

text \<open>What a step must leave alone of session \<open>j\<close> to keep it as it is.\<close>

definition same_slot :: "nat \<Rightarrow> server \<Rightarrow> server \<Rightarrow> bool" where
  "same_slot j s s' \<longleftrightarrow> free_sessions s' j = free_sessions s j \<and> sessions s' j = sessions s j
     \<and> slaves s' j = slaves s j
     \<and> (taken j s \<longrightarrow> clients s' (s_fhandler (sessions s j)) = clients s (s_fhandler (sessions s j)))"

lemma slot_ok_frame:
  assumes "slot_ok j G" and "phase_of G' j = phase_of G j" and "cl G' j = cl G j"
    and "slave_at (wld G') j = slave_at (wld G) j" and "same_slot j (server_in G) (server_in G')"
  shows "slot_ok j G'"
proof -
  have "taken j (server_in G') = taken j (server_in G)" "idle_slave j G' = idle_slave j G"
    using assms(4,5) by (simp_all add: taken_def same_slot_def idle_slave_def)
  moreover have "phase_ok j G' = phase_ok j G" if "taken j (server_in G)"
    using assms(2-5) by (simp add: phase_ok_def idle_slave_def same_slot_def split: phase.split)
  ultimately show ?thesis
    using assms by (auto simp: slot_ok_def Let_def session_of_def same_slot_def fd_ready_def)
qed

lemma slot_okD:
  assumes "slot_ok i G" and "phase_of G i \<noteq> Ready"
  shows "taken i (server_in G)" and "i < MAX_SESSIONS"
    and "session_of i (s_fhandler (sessions (server_in G) i)) (cl G i) (server_in G)" and "phase_ok i G"
  using assms by (auto simp: slot_ok_def Let_def taken_def split: if_splits)

lemma grid_invD:
  assumes "grid_inv G"
  shows "\<not> halted (wld G)" and "ops_inv (ops (server_in G))" and "pipes_ok (server_in G)" and "queue_ok G"
    and "slot_ok i G"
  using assms by (simp_all add: grid_inv_def)

lemma pipes_ok_same:
  "pipes_ok s \<Longrightarrow> sessions s' = sessions s \<Longrightarrow> free_sessions s' = free_sessions s \<Longrightarrow> pipes_ok s'"
  by (simp add: pipes_ok_def taken_def)

lemma session_of_same:
  assumes "session_of i fd c s" and "sessions s' = sessions s" and "free_sessions s' = free_sessions s"
    and "slave_session_id (slaves s' i) = slave_session_id (slaves s i)" and "clients s' fd = clients s fd"
  shows "session_of i fd c s'"
  using assms by (simp add: session_of_def fd_ready_def)

lemma sends_ready:
  assumes "slot_ok i G" and "taken i (server_in G)" and "phase_of G i = Ready" and "fits x"
  shows "sends x (cl G i) msg \<longleftrightarrow> msg = request_msg i x"
proof -
  have "phase_ok i G" "session_of i (s_fhandler (sessions (server_in G) i)) (cl G i) (server_in G)"
    using assms(1,2) by (simp_all add: slot_ok_def Let_def)
  with assms(3,4) session_parts [OF this(2)] show ?thesis
    by (intro sends_request) (simp_all add: phase_ok_def)
qed

lemma send_inv:
  assumes inv: "grid_inv G" and i: "phase_of G i = Ready" "i < MAX_SESSIONS"
    "free_sessions (server_in G) i = TAKEN_POS" "fits x" and msg: "sends x (cl G i) msg"
  shows "grid_inv (with_phase i (In_Pipe x) (with_server (deliver msg (server_in G))
    (G\<lparr>waiting := waiting G @ [(i, x)]\<rparr>)))" (is "grid_inv ?G'")
proof -
  note * = grid_invD [OF inv]
  have slot: "taken i (server_in G)" using i by (simp add: taken_def)
  have msg: "msg = request_msg i x"
    using sends_ready [OF *(5) [of i] slot i(1,4)] msg by simp
  have "i \<notin> fst ` set (waiting G)" "\<forall>y. (i, y) \<notin> set (waiting G)"
    using *(4) i(1) by (force simp: queue_ok_def)+
  then have "queue_ok ?G'"
    using *(4) by (auto simp: queue_ok_def input_def deliver_def msg)
  moreover have "pipes_ok (server_in ?G')" by (rule pipes_ok_same [OF *(3)]) simp_all
  moreover have "slot_ok j ?G'" for j
  proof (cases "j = i")
    case True
    from slot *(5) [of i] i(1,4) show ?thesis unfolding True
      by (auto simp: slot_ok_def Let_def phase_ok_def idle_slave_def taken_def session_of_def fd_ready_def)
  next
    case False
    show ?thesis by (rule slot_ok_frame [OF *(5) [of j]]) (use False in \<open>simp_all add: same_slot_def\<close>)
  qed
  ultimately show ?thesis using *(1,2) by (simp add: grid_inv_def)
qed

text \<open>The main thread serves the first message.\<close>

lemma main_serves:
  assumes inv: "grid_inv G" and first: "waiting G = (i, x) # ms" and g: "length g = SIZE"
  shows "serve g (server_in G) = Inr (increment_counter (hand_over i (set_request x)
    (left (concat (map (\<lambda>(i, x). request_msg i x) ms)) (server_in G))))"
    and "phase_of G i = In_Pipe x"
proof -
  note * = grid_invD [OF inv]
  show phase: "phase_of G i = In_Pipe x" using *(4) first by (auto simp: queue_ok_def)
  then have "i < MAX_SESSIONS" "fits x"
    using slot_okD [OF *(5) [of i]] by (simp_all add: phase_ok_def)
  moreover have "input (request_msg i x @ concat (map (\<lambda>(i, x). request_msg i x) ms)) (server_in G)"
    using *(4) first by (simp add: queue_ok_def)
  ultimately show "serve g (server_in G) = Inr (increment_counter (hand_over i (set_request x)
      (left (concat (map (\<lambda>(i, x). request_msg i x) ms)) (server_in G))))"
    using serve_request g by blast
qed

lemma main_inv:
  assumes inv: "grid_inv G" and first: "waiting G = (i, x) # ms" and g: "length g = SIZE"
    and s: "serve g (server_in G) = Inr s"
  shows "grid_inv (with_phase i (With_Slave x) (with_server s (G\<lparr>waiting := ms\<rparr>)))" (is "grid_inv ?G'")
proof -
  note * = grid_invD [OF inv]
  let ?rest = "concat (map (\<lambda>(i, x). request_msg i x) ms)"
  note phase = main_serves(2) [OF inv first g]
  have s: "s = increment_counter (hand_over i (set_request x) (left ?rest (server_in G)))"
    using main_serves(1) [OF inv first g] s by simp
  have same: "sessions s = sessions (server_in G)" "free_sessions s = free_sessions (server_in G)"
      "clients s = clients (server_in G)" "ops s = ops (server_in G)"
    by (simp_all add: s hand_over_def)
  have "distinct (i # map fst ms)" using *(4) first by (simp add: queue_ok_def)
  then have "\<forall>y. (i, y) \<notin> set ms" by force
  with *(4) first phase have "queue_ok ?G'"
    by (auto simp: queue_ok_def input_def s hand_over_def left_def)
  moreover have "pipes_ok (server_in ?G')" by (rule pipes_ok_same [OF *(3)]) (simp_all add: same)
  moreover have "slot_ok j ?G'" for j
  proof (cases "j = i")
    case True
    have slot: "taken i (server_in G)" "phase_ok i G"
        "session_of i (s_fhandler (sessions (server_in G) i)) (cl G i) (server_in G)"
      using slot_okD [OF *(5) [of i]] phase by simp_all
    have "session_of i (s_fhandler (sessions (server_in G) i)) (cl G i) s"
      by (rule session_of_same [OF slot(3)]) (simp_all add: same, simp add: s hand_over_def)
    with slot(1,2) phase same show ?thesis unfolding True
      by (auto simp: slot_ok_def Let_def phase_ok_def idle_slave_def taken_def s hand_over_def)
  next
    case False
    show ?thesis
      by (rule slot_ok_frame [OF *(5) [of j]]) (use False same in \<open>simp_all add: same_slot_def s hand_over_def\<close>)
  qed
  ultimately show ?thesis using *(1,2) same by (simp add: grid_inv_def)
qed

lemma take_inv:
  assumes inv: "grid_inv G" and i: "i < MAX_SESSIONS" and "slave_at (wld G) i = Waiting"
    and s: "take_request i (server_in G) = Some s"
  shows "grid_inv (with_slave i Solving (with_server s G))" (is "grid_inv ?G'")
proof -
  note * = grid_invD [OF inv]
  have wake: "wake_up (slaves (server_in G) i)"
    and s: "s = (server_in G)\<lparr>slaves := (slaves (server_in G))(i := (slaves (server_in G) i)\<lparr>wake_up := False\<rparr>)\<rparr>"
    using s by (auto simp: take_request_def split: if_splits)
  have busy: "\<exists>x. phase_of G i = With_Slave x" "taken i (server_in G)" "phase_ok i G"
      "session_of i (s_fhandler (sessions (server_in G) i)) (cl G i) (server_in G)"
    using *(5) [of i] wake
    by (auto simp: slot_ok_def Let_def phase_ok_def idle_slave_def split: if_splits phase.splits)
  have "slot_ok j ?G'" for j
  proof (cases "j = i")
    case True
    have "session_of i (s_fhandler (sessions (server_in G) i)) (cl G i) s"
      by (rule session_of_same [OF busy(4)]) (simp_all add: s)
    with busy assms(3) show ?thesis unfolding True
      by (auto simp: slot_ok_def Let_def phase_ok_def taken_def s)
  next
    case False
    show ?thesis by (rule slot_ok_frame [OF *(5) [of j]]) (use False in \<open>simp_all add: same_slot_def s\<close>)
  qed
  moreover have "pipes_ok (server_in ?G')" by (rule pipes_ok_same [OF *(3)]) (simp_all add: s)
  moreover have "queue_ok ?G'" using *(4) by (simp add: queue_ok_def input_def s)
  ultimately show ?thesis using *(1,2) by (simp add: grid_inv_def s)
qed

text \<open>The slave carries out an admissible call.\<close>

lemma slave_solves:
  assumes inv: "grid_inv G" and "slave_at (wld G) i = Solving" and phase: "phase_of G i = With_Slave x"
    and ok: "fs_ok (ops (server_in G)) x"
  obtains r bs f where "solve g i (server_in G) = Inr (answer (s_fhandler (sessions (server_in G) i)) bs
      ((update_request i (end_request x) (server_in G))\<lparr>ops := f\<rparr>))"
    and "ops_inv f" and "fs_spec (abs_ops (ops (server_in G))) x r (abs_ops f)" and "client_gets i x r bs"
    and "new_bytes i (server_in G) (answer (s_fhandler (sessions (server_in G) i)) bs
      ((update_request i (end_request x) (server_in G))\<lparr>ops := f\<rparr>)) = bs"
proof -
  note * = grid_invD [OF inv]
  let ?s = "server_in G" and ?fd = "s_fhandler (sessions (server_in G) i)"
  have slot: "i < MAX_SESSIONS" "session_of i ?fd (cl G i) ?s" "phase_ok i G"
    using slot_okD [OF *(5) [of i]] phase by simp_all
  have "requesting i ?fd x ?s"
    using slot phase ok *(2) by (auto simp: requesting_def phase_ok_def session_of_def)
  then obtain r bs f where f: "solve g i ?s = Inr (answer ?fd bs ((update_request i (end_request x) ?s)\<lparr>ops := f\<rparr>))"
      "ops_inv f" "fs_spec (abs_ops (ops ?s)) x r (abs_ops f)" "client_gets i x r bs"
    using request_carried_out [of i ?fd x ?s g] by (auto simp: carried_out_def)
  have "new_bytes i ?s (answer ?fd bs ((update_request i (end_request x) ?s)\<lparr>ops := f\<rparr>)) = bs"
    using slot(2) by (auto simp: new_bytes_def Let_def sent_to_def answer_def update_request_def session_of_def fd_ready_def)
  with f that show thesis by blast
qed

lemma gets_call:
  assumes "client_gets i x r (pending (from_server c))" and "session_of i fd c s"
  shows "client_call x c = Inr (r, after_call (request_msg i x) (length (pending (from_server c))) c)"
  using assms session_parts [OF assms(2)] by (simp add: client_gets_def)

lemma effect_inv:
  assumes inv: "grid_inv G" and slave: "slave_at (wld G) i = Solving" and phase: "phase_of G i = With_Slave x"
    and ok: "fs_ok (ops (server_in G)) x" and s: "solve g i (server_in G) = Inr s"
    and c: "c = with_answer (new_bytes i (server_in G) s) (cl G i)" and call: "client_call x c = Inr (r, c')"
  shows "grid_inv (with_client i c (with_phase i (Answered x r) (with_slave i Waiting (with_server s G))))"
      (is "grid_inv ?G'")
    and "fs_spec (abs_ops (ops (server_in G))) x r (abs_ops (ops s))"
proof -
  note * = grid_invD [OF inv]
  let ?s = "server_in G" and ?fd = "s_fhandler (sessions (server_in G) i)"
  have slot: "taken i ?s" "i < MAX_SESSIONS" "session_of i ?fd (cl G i) ?s" "phase_ok i G"
    using slot_okD [OF *(5) [of i]] phase by simp_all
  obtain r' bs f where f: "solve g i ?s = Inr (answer ?fd bs ((update_request i (end_request x) ?s)\<lparr>ops := f\<rparr>))"
      "ops_inv f" "fs_spec (abs_ops (ops ?s)) x r' (abs_ops f)" "client_gets i x r' bs"
      "new_bytes i ?s (answer ?fd bs ((update_request i (end_request x) ?s)\<lparr>ops := f\<rparr>)) = bs"
    by (rule slave_solves [OF inv slave phase ok])
  then have s: "s = answer ?fd bs ((update_request i (end_request x) ?s)\<lparr>ops := f\<rparr>)" using s by simp
  have c: "c = with_answer bs (cl G i)" using c f(5) by (simp add: s)
  have same: "sessions s = sessions ?s" "free_sessions s = free_sessions ?s" "fserv s = fserv ?s" "ops s = f"
      "\<forall>j. slave_session_id (slaves s j) = slave_session_id (slaves ?s j)"
      "\<forall>j. wake_up (slaves s j) = wake_up (slaves ?s j)" "\<forall>j. j \<noteq> i \<longrightarrow> slaves s j = slaves ?s j"
      "\<forall>fd. fd \<noteq> ?fd \<longrightarrow> clients s fd = clients ?s fd"
    by (simp_all add: s answer_def update_request_def)
  have "pending (from_server c) = bs" using slot(4) phase by (simp add: c phase_ok_def)
  moreover have session: "session_of i ?fd c s"
    using slot(3) same by (auto simp: session_of_def c s answer_def update_request_def fd_ready_def)
  ultimately have r: "r' = r" "client_gets i x r (pending (from_server c))"
    using gets_call [of i x r' c ?fd s] f(4) call by simp_all
  then show "fs_spec (abs_ops (ops ?s)) x r (abs_ops (ops s))" using f(3) same(4) by simp
  have "slot_ok j ?G'" for j
  proof (cases "j = i")
    case True
    have "\<not> wake_up (slaves ?s i)" using slot(4) phase slave by (simp add: phase_ok_def)
    with slot session r(2) same show ?thesis unfolding True
      by (simp add: slot_ok_def Let_def phase_ok_def idle_slave_def taken_def)
  next
    case False
    have "same_slot j ?s s"
      using False same *(3) slot(1) by (auto simp: same_slot_def pipes_ok_def)
    then show ?thesis by (intro slot_ok_frame [OF *(5) [of j]]) (use False in simp_all)
  qed
  moreover have "pipes_ok (server_in ?G')" by (rule pipes_ok_same [OF *(3)]) (simp_all add: same)
  moreover have "queue_ok ?G'" using *(4) phase same by (auto simp: queue_ok_def input_def)
  ultimately show "grid_inv ?G'" using *(1) f(2) same by (simp add: grid_inv_def)
qed

lemma answered_call:
  assumes "grid_inv G" and "phase_of G i = Answered x r"
  shows "\<exists>c'. client_call x (cl G i) = Inr (r, c') \<and> pending (from_server c') = [] \<and> client_ready c'
    \<and> session_id c' = session_id (cl G i)
    \<and> sent (to_server c') = sent (to_server (cl G i)) @ request_msg i x"
proof -
  have slot: "phase_ok i G" "session_of i (s_fhandler (sessions (server_in G) i)) (cl G i) (server_in G)"
    using slot_okD [OF grid_invD(5) [OF assms(1), of i]] assms(2) by simp_all
  then have "client_gets i x r (pending (from_server (cl G i)))" using assms(2) by (simp add: phase_ok_def)
  from gets_call [OF this slot(2)] session_parts [OF slot(2)] show ?thesis by simp
qed

lemma return_inv:
  assumes inv: "grid_inv G" and phase: "phase_of G i = Answered x r" and call: "client_call x (cl G i) = Inr (r', c')"
  shows "grid_inv (with_client i c' (with_phase i Ready G))" (is "grid_inv ?G'")
proof -
  note * = grid_invD [OF inv]
  have c': "pending (from_server c') = []" "client_ready c'" "session_id c' = session_id (cl G i)"
    using answered_call [OF inv phase] call by auto
  have slot: "taken i (server_in G)" "session_of i (s_fhandler (sessions (server_in G) i)) (cl G i) (server_in G)"
      "idle_slave i G"
    using slot_okD [OF *(5) [of i]] phase by (simp_all add: phase_ok_def)
  have "slot_ok j ?G'" for j
  proof (cases "j = i")
    case True
    with slot c' show ?thesis
      by (simp add: slot_ok_def Let_def phase_ok_def idle_slave_def session_of_def)
  next
    case False
    then show ?thesis by (intro slot_ok_frame [OF *(5) [of j]]) (simp_all add: same_slot_def)
  qed
  moreover have "queue_ok ?G'" using *(4) phase by (auto simp: queue_ok_def)
  ultimately show ?thesis using * by (simp add: grid_inv_def)
qed

section \<open>Histories of runs\<close>

text \<open>The calls in the order in which they take effect, with their results.\<close>

fun effect_of :: "event \<Rightarrow> (fs_op \<times> fs_ret) list" where
  "effect_of (Took_Effect i x r) = [(x, r)]"
| "effect_of e = []"

definition effects :: "event list \<Rightarrow> (fs_op \<times> fs_ret) list" where
  "effects tr = concat (map effect_of tr)"

text \<open>The events of one client: calls that are over, and what has happened to the one under way.\<close>

fun client_of_event :: "event \<Rightarrow> nat" where
  "client_of_event (Called i x) = i"
| "client_of_event (Took_Effect i x r) = i"
| "client_of_event (Came_Back i x r) = i"

definition events_of :: "nat \<Rightarrow> event list \<Rightarrow> event list" where
  "events_of i tr = filter (\<lambda>e. client_of_event e = i) tr"

definition over :: "nat \<Rightarrow> (fs_op \<times> fs_ret) list \<Rightarrow> event list" where
  "over i calls = concat (map (\<lambda>(x, r). [Called i x, Took_Effect i x r, Came_Back i x r]) calls)"

fun under_way :: "nat \<Rightarrow> phase \<Rightarrow> event list" where
  "under_way i Ready = []"
| "under_way i (In_Pipe x) = [Called i x]"
| "under_way i (With_Slave x) = [Called i x]"
| "under_way i (Answered x r) = [Called i x, Took_Effect i x r]"

lemma history_simps [simp]:
  "effects [] = []" "effects (e # tr) = effect_of e @ effects tr" "effects (tr @ tr') = effects tr @ effects tr'"
  "events_of i [] = []" "events_of i (tr @ tr') = events_of i tr @ events_of i tr'"
  "over i [] = []" "over i (calls @ calls') = over i calls @ over i calls'"
  "over i [(x, r)] = [Called i x, Took_Effect i x r, Came_Back i x r]"
  by (simp_all add: effects_def events_of_def over_def)

definition follows_spec :: "event list \<Rightarrow> grid \<Rightarrow> grid \<Rightarrow> bool" where
  "follows_spec tr G K \<longleftrightarrow> accepts fs_spec (abs_ops (ops (server_in G))) (map fst (effects tr))
     (map snd (effects tr)) (abs_ops (ops (server_in K)))"

lemma quiet_step:
  "effects tr = [] \<Longrightarrow> ops (server_in K) = ops (server_in G) \<Longrightarrow> follows_spec tr G K"
  by (simp add: follows_spec_def)

lemma grid_step_inv:
  assumes "grid_step G tr K" and "grid_inv G"
  shows "grid_inv K \<and> follows_spec tr G K"
  using assms
proof (induction rule: grid_step.induct)
  case (send G i x msg)
  then show ?case by (simp add: send_inv quiet_step)
next
  case (main G i x ms g s)
  have "s = increment_counter (hand_over i (set_request x)
      (left (concat (map (\<lambda>(i, x). request_msg i x) ms)) (server_in G)))"
    using main_serves(1) [OF main(4,1,2)] main(3) by simp
  then have "ops s = ops (server_in G)" by (simp add: hand_over_def)
  with main show ?case by (simp add: main_inv quiet_step)
next
  case (take i G s)
  then have "ops s = ops (server_in G)" by (auto simp: take_request_def split: if_splits)
  with take show ?case by (simp add: take_inv quiet_step)
next
  case (effect G i x g s c r c')
  with effect_inv [OF effect(7,1-6)] show ?case by (simp add: follows_spec_def)
next
  case (return G i x r r' c')
  then show ?case by (simp add: return_inv quiet_step)
qed

lemma grid_step_events:
  assumes "grid_step G tr K" and "grid_inv G"
  shows "under_way j (phase_of G j) @ events_of j tr = under_way j (phase_of K j)
    \<or> phase_of K j = Ready
      \<and> (\<exists>x r. under_way j (phase_of G j) @ events_of j tr = [Called j x, Took_Effect j x r, Came_Back j x r])"
  using assms
proof (induction rule: grid_step.induct)
  case (main G i x ms g s)
  with main_serves(2) [OF main(4,1,2)] show ?case by (simp add: events_of_def)
next
  case (return G i x r r' c')
  then have "r' = r" using answered_call [OF return(3,1)] by auto
  with return show ?case by (simp add: events_of_def)
qed (simp_all add: events_of_def)

lemma grid_run_inv:
  assumes "grid_run G tr K" and "grid_start G"
  shows "grid_inv K \<and> follows_spec tr G K \<and> (\<exists>calls. events_of j tr = over j calls @ under_way j (phase_of K j))"
  using assms
proof (induction rule: grid_run.induct)
  case (run_refl G)
  then show ?case by (auto simp: grid_start_def follows_spec_def intro: exI [of _ "[]"])
next
  case (run_step G tr H tr' K)
  then obtain calls where H: "grid_inv H" "follows_spec tr G H"
      "events_of j tr = over j calls @ under_way j (phase_of H j)"
    by auto
  note K = grid_step_inv [OF run_step(2) H(1)]
  have "follows_spec (tr @ tr') G K"
    using H(2) K by (auto simp: follows_spec_def intro: accepts_append)
  moreover have "\<exists>calls. events_of j (tr @ tr') = over j calls @ under_way j (phase_of K j)"
    using grid_step_events [OF run_step(2) H(1), of j]
  proof (elim disjE conjE exE)
    assume "under_way j (phase_of H j) @ events_of j tr' = under_way j (phase_of K j)"
    with H(3) show ?thesis by auto
  next
    fix x r
    assume "phase_of K j = Ready"
      "under_way j (phase_of H j) @ events_of j tr' = [Called j x, Took_Effect j x r, Came_Back j x r]"
    with H(3) show ?thesis by (intro exI [of _ "calls @ [(x, r)]"]) simp
  qed
  ultimately show ?case using K by simp
qed

section \<open>Progress\<close>

text \<open>The steps that are left for the call of client \<open>i\<close>.\<close>

definition steps_left :: "nat \<Rightarrow> grid \<Rightarrow> nat" where
  "steps_left i G = (case phase_of G i of Ready \<Rightarrow> 0 | In_Pipe x \<Rightarrow> 4
     | With_Slave x \<Rightarrow> (if slave_at (wld G) i = Solving then 2 else 3) | Answered x r \<Rightarrow> 1)"

definition work :: "grid \<Rightarrow> nat" where
  "work G = (\<Sum>i<MAX_SESSIONS. steps_left i G)"

lemma work_bound: "work G \<le> 40"
proof -
  have "work G \<le> (\<Sum>i<MAX_SESSIONS. 4)"
    unfolding work_def by (rule sum_mono) (simp add: steps_left_def split: phase.split)
  then show ?thesis by simp
qed

text \<open>Client \<open>i\<close> moves on to phase \<open>p\<close> and its slave to \<open>q\<close>.\<close>

definition moves :: "nat \<Rightarrow> phase \<Rightarrow> slave_pc \<Rightarrow> grid \<Rightarrow> grid \<Rightarrow> bool" where
  "moves i p q G K \<longleftrightarrow> phase_of K = (phase_of G)(i := p) \<and> slave_at (wld K) = (slave_at (wld G))(i := q)"

lemma less_work:
  assumes "moves i p q G K" and "i < MAX_SESSIONS" and "steps_left i K < steps_left i G"
  shows "work K < work G"
proof -
  have "steps_left j K \<le> steps_left j G" for j
    using assms(1,3) by (cases "j = i") (simp_all add: moves_def steps_left_def)
  with assms(2,3) show ?thesis
    unfolding work_def by (intro sum_strict_mono_ex1) auto
qed

text \<open>The steps that are possible in each phase.\<close>

lemma send_step:
  assumes "grid_inv G" and "phase_of G i = Ready" and "taken i (server_in G)" and "fits x"
  obtains K where "grid_step G [Called i x] K" and "waiting K = waiting G @ [(i, x)]"
    and "moves i (In_Pipe x) (slave_at (wld G) i) G K" and "ops (server_in K) = ops (server_in G)"
    and "taken j (server_in K) = taken j (server_in G)"
proof -
  have msg: "sends x (cl G i) (request_msg i x)"
    using sends_ready [OF grid_invD(5) [OF assms(1)] assms(3,2,4)] by simp
  show thesis
    by (rule that [OF send [OF assms(2) _ _ assms(4) msg]])
      (use assms(3) in \<open>simp_all add: taken_def moves_def deliver_def\<close>)
qed

lemma main_step:
  fixes g :: string
  assumes "grid_inv G" and "waiting G = (i, x) # ms" and "length g = SIZE"
  obtains K where "grid_step G [] K" and "moves i (With_Slave x) (slave_at (wld G) i) G K"
    and "phase_of G i = In_Pipe x" and "ops (server_in K) = ops (server_in G)"
proof -
  note s = main_serves(1) [OF assms]
  show thesis
    by (rule that [OF main [OF assms(2,3) s]]) (simp_all add: moves_def hand_over_def main_serves(2) [OF assms])
qed

lemma take_step:
  assumes "grid_inv G" and "phase_of G i = With_Slave x" and "slave_at (wld G) i = Waiting"
  obtains K where "grid_step G [] K" and "moves i (With_Slave x) Solving G K"
    and "ops (server_in K) = ops (server_in G)"
proof -
  have i: "i < MAX_SESSIONS" "phase_ok i G"
    using slot_okD [OF grid_invD(5) [OF assms(1), of i]] assms(2) by simp_all
  then have "wake_up (slaves (server_in G) i)" using assms(2,3) by (simp add: phase_ok_def)
  then obtain s where s: "take_request i (server_in G) = Some s" "ops s = ops (server_in G)"
    by (simp add: take_request_def)
  show thesis
    by (rule that [OF take [OF i(1) assms(3) s(1)]]) (use assms(2) s(2) in \<open>auto simp: moves_def\<close>)
qed

lemma effect_step:
  assumes "grid_inv G" and "phase_of G i = With_Slave x" and "slave_at (wld G) i = Solving"
    and "fs_ok (ops (server_in G)) x"
  obtains r K where "grid_step G [Took_Effect i x r] K" and "moves i (Answered x r) Waiting G K"
proof -
  let ?fd = "s_fhandler (sessions (server_in G) i)"
  have i: "phase_ok i G" "session_of i ?fd (cl G i) (server_in G)"
    using slot_okD [OF grid_invD(5) [OF assms(1), of i]] assms(2) by simp_all
  obtain g r bs f s where s: "solve g i (server_in G) = Inr s" "client_gets i x r bs"
      "s = answer ?fd bs ((update_request i (end_request x) (server_in G))\<lparr>ops := f\<rparr>)"
      "new_bytes i (server_in G) s = bs"
    using slave_solves [OF assms(1,3,2,4)] by metis
  let ?c = "with_answer bs (cl G i)"
  have "pending (from_server ?c) = bs" using i(1) assms(2) by (simp add: phase_ok_def)
  moreover have "session_of i ?fd ?c s"
    using i(2) by (auto simp: session_of_def s(3) answer_def update_request_def fd_ready_def)
  ultimately obtain c' where call: "client_call x ?c = Inr (r, c')"
    using gets_call [of i x r ?c ?fd s] s(2) by simp
  have c: "?c = with_answer (new_bytes i (server_in G) s) (cl G i)" by (simp add: s(4))
  show thesis
    by (rule that [OF effect [OF assms(3,2,4) s(1) c call]]) (simp add: moves_def)
qed

lemma return_step:
  assumes "grid_inv G" and "phase_of G i = Answered x r"
  obtains K where "grid_step G [Came_Back i x r] K" and "moves i Ready (slave_at (wld G) i) G K"
proof -
  obtain c' where call: "client_call x (cl G i) = Inr (r, c')" using answered_call [OF assms] by auto
  show thesis by (rule that [OF return [OF assms(2) call]]) (simp add: moves_def)
qed

text \<open>A step that takes work away and begins no call.\<close>

definition progresses :: "grid \<Rightarrow> bool" where
  "progresses G \<longleftrightarrow> (\<exists>tr K. grid_step G tr K \<and> work K < work G \<and> (\<forall>i x. Called i x \<notin> set tr))"

lemma progressI:
  assumes "grid_step G tr K" and "moves i p q G K" and "i < MAX_SESSIONS" and "\<forall>j x. Called j x \<notin> set tr"
    and "steps_left i K < steps_left i G"
  shows "progresses G"
  using assms less_work unfolding progresses_def by blast

lemma step_taken:
  assumes inv: "grid_inv G" and busy: "phase_of G i \<noteq> Ready"
    and ok: "\<And>x. phase_of G i = With_Slave x \<Longrightarrow> fs_ok (ops (server_in G)) x"
  shows "progresses G"
proof -
  note slot = slot_okD [OF grid_invD(5) [OF inv, of i] busy]
  consider x where "phase_of G i = In_Pipe x" | x where "phase_of G i = With_Slave x" "slave_at (wld G) i = Waiting"
    | x where "phase_of G i = With_Slave x" "slave_at (wld G) i = Solving" | x r where "phase_of G i = Answered x r"
    using busy slot(4) by (cases "phase_of G i") (simp_all add: phase_ok_def, blast)
  then show ?thesis
  proof cases
    case 1
    then have "(i, x) \<in> set (waiting G)" using grid_invD(4) [OF inv] by (simp add: queue_ok_def)
    then obtain j y ms where j: "waiting G = (j, y) # ms" by (cases "waiting G") auto
    obtain g :: string where g: "length g = SIZE" using length_replicate [of SIZE NUL] by blast
    obtain K where K: "grid_step G [] K" "moves j (With_Slave y) (slave_at (wld G) j) G K" "phase_of G j = In_Pipe y"
      by (rule main_step [OF inv j g])
    have "j < MAX_SESSIONS" using slot_okD(2) [OF grid_invD(5) [OF inv, of j]] K(3) by simp
    with K show ?thesis by (intro progressI [OF K(1,2)]) (auto simp: steps_left_def moves_def)
  next
    case 2
    obtain K where K: "grid_step G [] K" "moves i (With_Slave x) Solving G K"
      by (rule take_step [OF inv 2])
    show ?thesis by (rule progressI [OF K slot(2)]) (use 2 K(2) in \<open>simp_all add: steps_left_def moves_def\<close>)
  next
    case 3
    obtain r K where K: "grid_step G [Took_Effect i x r] K" "moves i (Answered x r) Waiting G K"
      by (rule effect_step [OF inv 3 ok [OF 3(1)]])
    show ?thesis by (rule progressI [OF K slot(2)]) (use 3 K(2) in \<open>simp_all add: steps_left_def moves_def\<close>)
  next
    case 4
    obtain K where K: "grid_step G [Came_Back i x r] K" "moves i Ready (slave_at (wld G) i) G K"
      by (rule return_step [OF inv 4])
    show ?thesis by (rule progressI [OF K slot(2)]) (use 4 K(2) in \<open>simp_all add: steps_left_def moves_def\<close>)
  qed
qed

section \<open>The server of the run\<close>

text \<open>The steps are those of the server, a message that arrives, or do not concern it.\<close>

lemma set_request_code: "r_op_code (set_request x q) \<noteq> int TFS_OP_CODE_SHUTDOWN_AFTER_ALL_CLOSED"
  by (cases x) simp_all

lemma grid_step_server:
  assumes "grid_step G tr K" and "grid_inv G"
  shows "wld K = wld G \<or> world_step (wld G) (wld K)
    \<or> (\<exists>msg. wld K = (wld G)\<lparr>srv := deliver msg (server_in G)\<rparr>)"
  using assms
proof (induction rule: grid_step.induct)
  case (send G i x msg)
  then show ?case by auto
next
  case (main G i x ms g s)
  then show ?case by (simp add: main_round grid_invD(1))
next
  case (take i G s)
  then show ?case by (simp add: wake grid_invD(1))
next
  case (effect G i x g s c r c')
  have "phase_ok i G" using slot_okD [OF grid_invD(5) [OF effect(7), of i]] effect(2) by simp
  then have "r_op_code (request (slaves (server_in G) i)) \<noteq> int TFS_OP_CODE_SHUTDOWN_AFTER_ALL_CLOSED"
    using effect(2) set_request_code by (auto simp: phase_ok_def)
  with carry_out [OF grid_invD(1) [OF effect(7)] effect(1,4)] show ?case by simp
qed simp

end
