(* ===== verification/Concurrent_Properties.thy ===== *)
theory Concurrent_Properties
  imports Concurrent_Clients Server_Examples
begin

text \<open>
  The properties of clients that call at the same time: linearizability and progress.
\<close>

section \<open>The instance\<close>

text \<open>The first \<open>k\<close> clients have a session each; nothing is on its way.\<close>

definition grid_on :: "nat \<Rightarrow> ops_state \<Rightarrow> grid" where
  "grid_on k f = \<lparr>wld = \<lparr>srv = serving k f, slave_at = (\<lambda>_. Waiting), halted = False\<rparr>, cl = client_of,
     phase_of = (\<lambda>_. Ready), waiting = []\<rparr>"

lemma grid_on_simps [simp]:
  "wld (grid_on k f) = \<lparr>srv = serving k f, slave_at = (\<lambda>_. Waiting), halted = False\<rparr>"
  "cl (grid_on k f) = client_of" "phase_of (grid_on k f) = (\<lambda>_. Ready)" "waiting (grid_on k f) = []"
  by (simp_all add: grid_on_def)

lemma serving_no_request: "\<not> wake_up (slaves (serving k f) i)"
  by (simp add: serving_def server0_def server_init_def static_server_def init_slave_def)

lemma grid_on_start:
  assumes "k \<le> MAX_SESSIONS" and "ops_inv f"
  shows "grid_start (grid_on k f)"
proof -
  have taken: "taken i (serving k f) \<longleftrightarrow> i < k" for i
    using assms(1) by (auto simp: taken_def)
  have "slot_ok i (grid_on k f)" for i
    using serving_session [OF _ assms(1), of i f]
    by (simp add: slot_ok_def Let_def taken phase_ok_def idle_slave_def serving_no_request)
  moreover have "pipes_ok (serving k f)" by (simp add: pipes_ok_def taken)
  ultimately show ?thesis
    using assms(2) by (simp add: grid_start_def grid_inv_def queue_ok_def)
qed

section \<open>Overlapping calls\<close>

text \<open>C3: Clients call at the same time; messages wait in the pipe while slaves work, and slaves finish in any
  order. The calls are \<open>tfs_open\<close>, \<open>tfs_close\<close>, \<open>tfs_read\<close> and \<open>tfs_write\<close> of four bytes (the client mistakes
  the answers to writes of other lengths) with arguments that fit the messages, and every call is admissible
  for the file system when it takes effect. In every run of such calls each client sees its own calls one after the
  other, each returning the very result with which it took effect, between the sending of its message and its
  return; and the calls, in the order in which they take effect, are a history of the specification of the file
  system.\<close>

theorem concurrent_clients_linearize:
  assumes "grid_start G" and "grid_run G tr K"
  shows "(\<exists>calls. events_of i tr = over i calls @ under_way i (phase_of K i))
    \<and> accepts fs_spec (abs_ops (ops (server_in G))) (map fst (effects tr)) (map snd (effects tr))
        (abs_ops (ops (server_in K)))"
  using grid_run_inv [OF assms(2,1)] by (simp add: follows_spec_def)

text \<open>Two clients have sent their messages, and the first call has taken effect.\<close>

abbreviation (input) two_calls :: "fs_ret \<Rightarrow> event list" where
  "two_calls r \<equiv> [Called 0 (Write 0 ''AAA!''), Called 1 (Open ''/f'' 0), Took_Effect 0 (Write 0 ''AAA!'') r]"

lemma two_sent:
  obtains G where "grid_run (grid_on 2 boot_f) [Called 0 (Write 0 ''AAA!''), Called 1 (Open ''/f'' 0)] G"
    and "waiting G = [(0, Write 0 ''AAA!''), (1, Open ''/f'' 0)]" and "ops (server_in G) = boot_f"
    and "slave_at (wld G) 0 = Waiting"
proof -
  have start: "grid_inv (grid_on 2 boot_f)"
    using grid_on_start [of 2 boot_f] by (simp add: boot_f_inv grid_start_def)
  have taken: "taken 0 (serving 2 boot_f)" "taken 1 (serving 2 boot_f)" by (simp_all add: taken_def)
  obtain G where G: "grid_step (grid_on 2 boot_f) [Called 0 (Write 0 ''AAA!'')] G"
      "waiting G = [(0, Write 0 ''AAA!'')]" "ops (server_in G) = boot_f" "taken 1 (server_in G)"
      "phase_of G 1 = Ready" "slave_at (wld G) 0 = Waiting"
    by (rule send_step [OF start, of 0 "Write 0 ''AAA!''" 1]) (use taken in \<open>simp_all add: moves_def\<close>)
  obtain K where K: "grid_step G [Called 1 (Open ''/f'' 0)] K"
      "waiting K = [(0, Write 0 ''AAA!''), (1, Open ''/f'' 0)]" "ops (server_in K) = boot_f"
      "slave_at (wld K) 0 = Waiting"
    by (rule send_step [OF grid_step_inv [OF G(1) start, THEN conjunct1] G(5,4), of "Open ''/f'' 0" 0]) (use G in \<open>simp_all add: moves_def\<close>)
  with run_step [OF run_step [OF run_refl G(1)] K(1)] that show thesis by simp
qed

lemma concurrent_clients_linearize_witness:
  "\<exists>r G. grid_run (grid_on 2 boot_f) (two_calls r) G
    \<and> fs_spec (abs_ops boot_f) (Write 0 ''AAA!'') r (abs_ops (ops (server_in G)))"
proof -
  have start: "grid_start (grid_on 2 boot_f)" by (rule grid_on_start) (simp_all add: boot_f_inv)
  obtain G1 where G1: "grid_run (grid_on 2 boot_f) [Called 0 (Write 0 ''AAA!''), Called 1 (Open ''/f'' 0)] G1"
      "waiting G1 = [(0, Write 0 ''AAA!''), (1, Open ''/f'' 0)]" "ops (server_in G1) = boot_f"
      "slave_at (wld G1) 0 = Waiting"
    by (rule two_sent)
  note inv1 = grid_run_inv [OF G1(1) start, THEN conjunct1]
  obtain G2 where G2: "grid_step G1 [] G2" "phase_of G2 0 = With_Slave (Write 0 ''AAA!'')"
      "slave_at (wld G2) 0 = Waiting" "ops (server_in G2) = boot_f"
    by (rule main_step [OF inv1 G1(2) length_garbage0]) (use G1 in \<open>simp_all add: moves_def\<close>)
  note inv2 = grid_step_inv [OF G2(1) inv1, THEN conjunct1]
  obtain G3 where G3: "grid_step G2 [] G3" "phase_of G3 0 = With_Slave (Write 0 ''AAA!'')"
      "slave_at (wld G3) 0 = Solving" "ops (server_in G3) = boot_f"
    by (rule take_step [OF inv2 G2(2,3)]) (use G2 in \<open>simp_all add: moves_def\<close>)
  note inv3 = grid_step_inv [OF G3(1) inv2, THEN conjunct1]
  have "fs_ok (ops (server_in G3)) (Write 0 ''AAA!'')" by (simp add: G3(4) boot_f_handle)
  from effect_step [OF inv3 G3(2,3) this] obtain r K where
    K: "grid_step G3 [Took_Effect 0 (Write 0 ''AAA!'') r] K" by metis
  have "grid_run (grid_on 2 boot_f) (two_calls r) K"
    using run_step [OF run_step [OF run_step [OF G1(1) G2(1)] G3(1)] K] by simp
  moreover from concurrent_clients_linearize [OF start this, of 0]
  have "fs_spec (abs_ops boot_f) (Write 0 ''AAA!'') r (abs_ops (ops (server_in K)))" by simp
  ultimately show ?thesis by blast
qed

section \<open>Progress\<close>

text \<open>C5: No call of such a run gets stuck: in every state it reaches, while a client waits for an answer - and, if a
  slave has its request, the call is admissible for the file system - the server or a client can make a step
  that begins no call and leaves fewer steps to do; at most 40 such steps are left. The calls are those
  above, with writes of four bytes only: those of other lengths do get stuck or go wrong.\<close>

theorem concurrent_clients_progress:
  assumes "grid_start G" and "grid_run G tr K" and "phase_of K i \<noteq> Ready"
    and "\<And>x. phase_of K i = With_Slave x \<Longrightarrow> fs_ok (ops (server_in K)) x"
  shows "progresses K \<and> work K \<le> 40"
  using step_taken [OF conjunct1 [OF grid_run_inv [OF assms(2,1)]] assms(3,4)] work_bound by blast

lemma concurrent_clients_progress_witness:
  "\<exists>G. grid_run (grid_on 2 boot_f) [Called 0 (Write 0 ''AAA!''), Called 1 (Open ''/f'' 0)] G \<and> progresses G"
proof -
  have start: "grid_start (grid_on 2 boot_f)" by (rule grid_on_start) (simp_all add: boot_f_inv)
  obtain G where G: "grid_run (grid_on 2 boot_f) [Called 0 (Write 0 ''AAA!''), Called 1 (Open ''/f'' 0)] G"
      "waiting G = [(0, Write 0 ''AAA!''), (1, Open ''/f'' 0)]"
    by (rule two_sent)
  have "phase_of G 0 = In_Pipe (Write 0 ''AAA!'')"
    using grid_invD(4) [OF grid_run_inv [OF G(1) start, THEN conjunct1]] G(2) by (auto simp: queue_ok_def)
  with concurrent_clients_progress [OF start G(1), of 0] G(1) show ?thesis by auto
qed

end
