(* ===== verification/Server_Start.thy ===== *)
theory Server_Start
  imports World Server_Examples
begin

text \<open>
  The start of the server: \<open>server_init\<close> with the calls that can fail, and \<open>main\<close> up to its loop.
\<close>

section \<open>\<open>server_init\<close>\<close>

text \<open>
  The results of the calls of pthread functions are a list, 0 when it is at its end. The functions stop at the
  first failure and return -1; the last component says how many slaves run.
\<close>

definition next_ret :: "int list \<Rightarrow> int \<times> int list" where
  "next_ret rets = (case rets of [] \<Rightarrow> (0, []) | r # rs \<Rightarrow> (r, rs))"

definition clear_table :: "server \<Rightarrow> server" where
  "clear_table s = s\<lparr>open_sessions := 0,
     free_sessions := (\<lambda>i. if i < MAX_SESSIONS then FREE_POS else free_sessions s i),
     sessions := (\<lambda>i. if i < MAX_SESSIONS then empty_session else sessions s i)\<rparr>"

definition clear_request :: "request_t \<Rightarrow> request_t" where
  "clear_request q = q\<lparr>r_op_code := -1, r_fcli := -1, r_fhandler := -1, r_flags := -1,
     r_len := 0, r_name := replicate NAME_SIZE NUL\<rparr>"

text \<open>One round of the loop over the slaves: the mutex, the lock, and the condition of slave \<open>i\<close>.\<close>

definition init_slave_calls :: "nat \<Rightarrow> int list \<Rightarrow> server \<Rightarrow> int \<times> int list \<times> server" where
  "init_slave_calls i rets s =
     (let s1 = update_request i clear_request s; (mutex, rets1) = next_ret rets in
      if mutex \<noteq> 0 then (-1, rets1, s1)
      else let (rwlock, rets2) = next_ret rets1 in
      if rwlock \<noteq> 0 then (-1, rets2, s1)
      else let s2 = s1\<lparr>slaves := (slaves s1)(i := (slaves s1 i)\<lparr>slave_session_id := int i, wake_up := False\<rparr>)\<rparr>;
        (cond, rets3) = next_ret rets2 in
      if cond \<noteq> 0 then (-1, rets3, s2) else (0, rets3, s2))"

fun init_slaves :: "nat \<Rightarrow> nat \<Rightarrow> int list \<Rightarrow> server \<Rightarrow> int \<times> int list \<times> server" where
  "init_slaves i 0 rets s = (0, rets, s)"
| "init_slaves i (Suc n) rets s =
     (case init_slave_calls i rets s of (r, rets', s') \<Rightarrow>
        if r = -1 then (-1, rets', s') else init_slaves (Suc i) n rets' s')"

fun create_slaves :: "nat \<Rightarrow> nat \<Rightarrow> int list \<Rightarrow> int \<times> nat \<times> int list" where
  "create_slaves i 0 rets = (0, i, rets)"
| "create_slaves i (Suc n) rets =
     (case next_ret rets of (r, rets') \<Rightarrow> if r \<noteq> 0 then (-1, i, rets') else create_slaves (Suc i) n rets')"

definition server_init_calls :: "int list \<Rightarrow> server \<Rightarrow> fault + int \<times> nat \<times> server" where
  "server_init_calls rets s =
     (let (r, rets1, s1) = init_slaves 0 MAX_SESSIONS rets (clear_table s) in
      if r = -1 then Inr (-1, 0, s1)
      else let (r, running, rets2) = create_slaves 0 MAX_SESSIONS rets1 in
      if r = -1 then Inr (-1, running, s1)
      else if fst (next_ret rets2) = -1 then Inl (Exited 1)
      else Inr (0, running, s1))"

section \<open>\<open>main\<close>\<close>

text \<open>
  What \<open>main\<close> gets from the system. \<open>raise(SIGINT)\<close> after its handler could not be set ends the process,
  with the signal, 2; the loop around \<open>open\<close> runs until a result is a descriptor.
\<close>

record start_env =
  argc :: int
  pthread_rets :: "int list"
  unlink_ret :: int
  unlink_errno :: int
  mkfifo_ret :: int
  sigpipe_set :: bool
  sigint_set :: bool
  listen_rets :: "int list"

definition main_start :: "start_env \<Rightarrow> server \<Rightarrow> fault + nat \<times> server" where
  "main_start e s =
     (if argc e < 2 then Inl (Exited 1)
      else andthen (server_init_calls (pthread_rets e) s) (\<lambda>(r, running, s1).
        if unlink_ret e \<noteq> 0 \<and> unlink_errno e \<noteq> ENOENT then Inl (Exited 1)
        else if mkfifo_ret e \<noteq> 0 then Inl (Exited 1)
        else if \<not> sigpipe_set e then Inl (Exited 1)
        else if \<not> sigint_set e then Inl (Exited (128 + 2))
        else let (t, f) = tfs_init (ops s1) in
        if t = -1 then Inl (Exited 1)
        else if list_ex (\<lambda>fd. 0 \<le> fd) (listen_rets e) then Inr (running, s1\<lparr>ops := f\<rparr>)
        else Inl Blocked))"

section \<open>The state after the start\<close>

lemma next_ret_simps [simp]: "next_ret (r # rs) = (r, rs)" "next_ret [] = (0, [])"
  by (simp_all add: next_ret_def)

lemma init_slave_call:
  "init_slave_calls i (0 # 0 # 0 # rest) s = (0, rest, s\<lparr>slaves := (slaves s)(i := init_slave i (slaves s i))\<rparr>)"
proof -
  obtain a b q where sl: "slaves s i = \<lparr>slave_session_id = a, wake_up = b, request = q\<rparr>"
    by (cases "slaves s i")
  show ?thesis by (simp add: init_slave_calls_def init_slave_def clear_request_def update_request_def sl)
qed

lemma init_all_slaves:
  "init_slaves i n (replicate (3 * n) 0 @ rest) s
    = (0, rest, s\<lparr>slaves := (\<lambda>j. if i \<le> j \<and> j < i + n then init_slave j (slaves s j) else slaves s j)\<rparr>)"
proof (induction n arbitrary: i s)
  case 0
  show ?case by (cases s) (auto simp: fun_eq_iff)
next
  case (Suc n)
  have "replicate (3 * Suc n) (0::int) @ rest = 0 # 0 # 0 # replicate (3 * n) 0 @ rest"
    by (simp add: numeral_3_eq_3)
  then show ?case
    by (auto simp only: init_slaves.simps init_slave_call Suc prod.case)
      (auto simp: fun_eq_iff le_less_Suc_eq not_le Suc_le_eq)
qed

lemma create_slaves_fail:
  "m < n \<Longrightarrow> r \<noteq> 0 \<Longrightarrow> create_slaves i n (replicate m 0 @ r # rest) = (-1, i + m, rest)"
proof (induction n arbitrary: i m)
  case (Suc n)
  then show ?case by (cases m) simp_all
qed simp

lemma create_slaves_all: "create_slaves i n (replicate n 0 @ rest) = (0, i + n, rest)"
  by (induction n arbitrary: i) simp_all

text \<open>The results of the calls when creating slave \<open>k\<close> is the first failure, or nothing fails.\<close>

definition creates :: "nat \<Rightarrow> int list \<Rightarrow> bool" where
  "creates k rets \<longleftrightarrow> (k < MAX_SESSIONS \<and> (\<exists>r rest. r \<noteq> 0 \<and> rets = replicate (30 + k) 0 @ r # rest))
     \<or> (k = MAX_SESSIONS \<and> rets = replicate 41 0)"

lemma server_init_creates:
  assumes "creates k rets"
  shows "server_init_calls rets s = Inr (if k < MAX_SESSIONS then -1 else 0, k, server_init s)"
proof -
  have init: "init_slaves 0 MAX_SESSIONS (replicate 30 0 @ rest) (clear_table s) = (0, rest, server_init s)" for rest
    using init_all_slaves [of 0 MAX_SESSIONS rest "clear_table s"]
    by (simp add: clear_table_def server_init_def cong: if_cong)
  consider r rest where "k < MAX_SESSIONS" "r \<noteq> 0" "rets = replicate 30 0 @ replicate k 0 @ r # rest"
    | "k = MAX_SESSIONS" "rets = replicate 30 0 @ replicate MAX_SESSIONS 0 @ [0]"
    using assms unfolding creates_def by (auto simp: replicate_add eval_nat_numeral)
  then show ?thesis
  proof cases
    case 1
    then show ?thesis using create_slaves_fail [of k MAX_SESSIONS r 0 rest] by (simp add: server_init_calls_def init)
  next
    case 2
    then show ?thesis
      using create_slaves_all [of 0 MAX_SESSIONS "[0]"] by (simp add: server_init_calls_def init)
  qed
qed

text \<open>All calls of the system but those on threads succeed.\<close>

definition can_start :: "start_env \<Rightarrow> bool" where
  "can_start e \<longleftrightarrow> 2 \<le> argc e \<and> (unlink_ret e = 0 \<or> unlink_errno e = ENOENT) \<and> mkfifo_ret e = 0
     \<and> sigpipe_set e \<and> sigint_set e \<and> (\<exists>fd\<in>set (listen_rets e). 0 \<le> fd)"

text \<open>C13: The start of the server: its loop begins with an empty session table, slaves that have their numbers and
  wait, and the file system of \<open>tfs_init\<close>, well formed and empty. This is so whatever the results
  of creating the slaves: when only \<open>k < 10\<close> of them could be created, \<open>server_init\<close> returns -1, but \<open>main\<close> goes
  on, and offers the positions of those that do not run.\<close>

theorem server_start:
  assumes "can_start e" and "creates k (pthread_rets e)"
    and "\<not> global_locked s" and "quiet (ops s)" and "stray_unlocks (ops s) = 0"
  shows "\<exists>t. main_start e s = Inr (k, t) \<and> ops_inv (ops t) \<and> (\<forall>h. \<not> open_handle (fs (ops t)) h)
    \<and> (\<forall>i<10. free_sessions t i = FREE_POS \<and> slave_session_id (slaves t i) = int i \<and> \<not> wake_up (slaves t i))
    \<and> open_sessions t = 0 \<and> world_start \<lparr>srv = t, slave_at = (\<lambda>_. Waiting), halted = False\<rparr>"
proof -
  have ops: "ops (server_init s) = ops s" by (simp add: server_init_def)
  obtain f where f: "tfs_init (ops s) = (0, f)" "ops_inv f" "\<forall>h. \<not> open_handle (fs f) h"
    using tfs_init_inv [OF assms(4,5)] by (metis prod.collapse)
  have "main_start e s = Inr (k, (server_init s)\<lparr>ops := f\<rparr>)"
    using assms(1) f(1) unfolding main_start_def server_init_creates [OF assms(2)]
    by (auto simp: can_start_def ops list_ex_iff)
  moreover have "(server_init s)\<lparr>ops := f\<rparr> = server_init (s\<lparr>ops := f\<rparr>)" by (simp add: server_init_def cong: if_cong)
  moreover have "world_start \<lparr>srv = server_init (s\<lparr>ops := f\<rparr>), slave_at = (\<lambda>_. Waiting), halted = False\<rparr>"
    using assms(3) by (auto simp: world_start_def intro!: exI [of _ "s\<lparr>ops := f\<rparr>"])
  ultimately show ?thesis
    using f(2,3) by (auto simp: server_init_def init_slave_def)
qed

text \<open>The static variables before \<open>main\<close>, and a system on which the fourth slave cannot be created.\<close>

lemma server_start_witness:
  "\<exists>t. main_start \<lparr>argc = 2, pthread_rets = replicate 33 0 @ [11], unlink_ret = -1, unlink_errno = 2, mkfifo_ret = 0,
      sigpipe_set = True, sigint_set = True, listen_rets = [-1, 3]\<rparr> static_server = Inr (3, t)
    \<and> free_sessions t 3 = FREE_POS"
proof -
  have "creates 3 (replicate 33 0 @ [11])" by (auto simp: creates_def)
  moreover have "quiet (ops static_server)" "stray_unlocks (ops static_server) = 0" "\<not> global_locked static_server"
    using boot_inv by (simp_all add: static_server_def ops_inv_def)
  ultimately show ?thesis
    using server_start [of "\<lparr>argc = 2, pthread_rets = replicate 33 0 @ [11], unlink_ret = -1, unlink_errno = 2,
      mkfifo_ret = 0, sigpipe_set = True, sigint_set = True, listen_rets = [-1, 3]\<rparr>" 3 static_server]
    by (auto simp: can_start_def)
qed

end
