(* ===== verification/Request_Errors.thy ===== *)
theory Request_Errors
  imports Server_Examples
begin

text \<open>
  The shutdown request, and the requests on which client and server disagree or the server fails.
\<close>

section \<open>Shutdown\<close>

lemma int_text_0: "\<exists>b. int_text SIZE 0 = Inr b \<and> length b = SIZE \<and> take 4 b = field4 0"
  using int_text_field [of 0 SIZE] by auto

text \<open>C21: A shutdown: the request announces it to the file system, waits while a file is open, and
  without open files answers 0, twice: the client's \<open>tfs_shutdown_after_all_closed\<close> returns 0 and leaves
  the second answer unread.\<close>

theorem remote_shutdown:
  assumes "session_of i fd c s" and "input [] s" and "pending (from_server c) = []"
  shows "\<exists>s1. round_trip g i (deliver (shutdown_msg (int i)) s) = Inr s1
    \<and> ops s1 = (ops s)\<lparr>called_destroy := DESTROY\<rparr>
    \<and> (if open_files (ops s) \<noteq> 0 then shutdown_end i s1 = Inl Blocked
       else \<exists>s2 bs c'. shutdown_end i s1 = Inr s2 \<and> sent_to fd s2 = sent_to fd s @ bs
         \<and> client_shutdown_after_all_closed (with_answer bs c) = Inr (0, c')
         \<and> sent (to_server c') = sent (to_server c) @ shutdown_msg (int i)
         \<and> pending (from_server c') = field4 0)"
proof -
  note i = session_parts [OF assms(1)]
  let ?m = "shutdown_msg (int i)" and ?q = "\<lambda>q. q\<lparr>r_op_code := 7\<rparr>"
  let ?s1 = "shutdown_begin (requested i ?q (left [] s))"
  have "serve g (deliver ?m s) = Inr (hand_over i ?q (left [] (deliver ?m s)))"
    using serve_shutdown [of i "[]" "deliver ?m s" g] deliver_input [OF assms(2)] i(1) by simp
  moreover have "left [] (deliver ?m s) = left [] s" by (simp add: left_def deliver_def)
  ultimately have trip: "round_trip g i (deliver ?m s) = Inr ?s1"
    by (simp add: round_trip_def take_hand_over solve_def)
  have fd: "s_fhandler (sessions ?s1 i) = fd" "ops ?s1 = (ops s)\<lparr>called_destroy := DESTROY\<rparr>"
      "clients ?s1 = clients s"
    using assms(1) by (simp_all add: session_of_def shutdown_begin_def)
  obtain b where b: "int_text SIZE 0 = Inr b" "length b = SIZE" "take 4 b = field4 0"
    using int_text_0 by blast
  obtain x f where destroy: "tfs_destroy (ops ?s1) = (x, f)" by fastforce
  let ?s1' = "?s1\<lparr>ops := f\<rparr>"
  let ?s2 = "answer fd (field4 0) (answer fd (field4 0) ?s1')"
  have ready: "fd_ready fd ?s1'" "fd_ready fd (answer fd (field4 0) ?s1')"
    using assms(1) fd(3) by (auto simp: session_of_def fd_ready_def answer_def)
  have sent: "sent_to fd ?s2 = sent_to fd s @ field4 0 @ field4 0"
    using assms(1) fd(3) by (auto simp: session_of_def fd_ready_def answer_def sent_to_def)
  have "shutdown_end i ?s1 = Inr ?s2" if "open_files (ops s) = 0"
    using that fd(1,2) b reply_ready [OF ready(1), of 4 b] plain_write_ready [OF ready(2), of "field4 0"] destroy
    by (simp add: shutdown_end_def Let_def)
  moreover have "shutdown_end i ?s1 = Inl Blocked" if "open_files (ops s) \<noteq> 0"
    using that fd by (simp add: shutdown_end_def)
  moreover have "client_shutdown_after_all_closed (with_answer (field4 0 @ field4 0) c)
      = Inr (0, after_call ?m 4 (with_answer (field4 0 @ field4 0) c))"
    using client_shutdown_eq [of "with_answer (field4 0 @ field4 0) c" 0 "field4 0"] assms(3) i
    by (simp add: short_int_def)
  ultimately show ?thesis
    using trip fd(2) sent assms(3) by fastforce
qed

lemma remote_shutdown_witness:
  "\<exists>s1 s2. round_trip garbage0 0 (deliver (shutdown_msg 0) (serving 1 boot)) = Inr s1
    \<and> shutdown_end 0 s1 = Inr s2"
proof -
  have "open_files boot = 0" using boot_inv(1,3) by (simp add: ops_inv_def open_count_def)
  with remote_shutdown [OF serving_session [of 0 1 boot], of garbage0] show ?thesis by auto
qed

section \<open>Writes\<close>

text \<open>C29: The server answers a write with four bytes, but the client reads as many as it wrote: a write of
  more than four bytes never returns. A write of fewer returns its length and leaves the rest of the answer in the
  pipe, so that the client's next \<open>tfs_close\<close> returns 0 although the server answers -1.\<close>

theorem client_write_reads_the_wrong_length:
  assumes "client_ready c" and "short_int (session_id c)" and "short_int fh" and "0 < length d"
    and "length d < 1000" and "length d \<noteq> 4"
    and "pending (from_server c) = field4 (int (length d))" and "\<not> writers_closed (from_server c)"
  shows "if 4 < length d then client_write fh d (length d) c = Inl Blocked
    else \<exists>c'. client_write fh d (length d) c = Inr (int (length d), c')
      \<and> (\<exists>c''. client_close fh (with_answer (field4 (-1)) c') = Inr (0, c''))"
proof (cases "4 < length d")
  case True
  let ?c1 = "after_call (write_msg (session_id c) fh d) 0 c" and ?f = "field4 (int (length d))"
  have f: "?f \<noteq> []" by (metis length_field4 list.size(3) zero_neq_numeral)
  have "slait (replicate (length d + 14) NUL) (length d) (from_server ?c1) = Inl Blocked"
    by (rule slait_too_long) (use True f assms(1,7,8) in \<open>simp_all add: client_ready_def after_call_def\<close>)
  then have "read_server (replicate (length d + 14) NUL) (length d) ?c1 = Inl Blocked"
    by (simp add: read_server_def)
  with client_write_sends [OF assms(1-3), of d] True assms(5) show ?thesis by simp
next
  case False
  with assms(4,6) have "length d = 1 \<or> length d = 2 \<or> length d = 3" by linarith
  then have d: "length d \<in> {1, 2, 3}" by simp
  let ?n = "length d" and ?m = "write_msg (session_id c) fh d"
  have field: "field4 (int ?n) = op_char ?n # replicate 3 NUL"
    by (rule field4_digit) (use d in auto)
  let ?c1 = "after_call ?m 0 c" and ?c' = "after_call ?m ?n c"
  have "read_server (replicate (?n + 14) NUL) ?n ?c1 = Inr (int ?n,
      take ?n (field4 (int ?n)) @ replicate 14 NUL, ?c')"
    using assms(1,4,7) False
    by (subst read_server_ready) (simp_all add: client_ready_def after_call_def)
  moreover have "atoi (take ?n (field4 (int ?n)) @ replicate 14 NUL) = Inr (int ?n)"
  proof -
    have "take ?n (field4 (int ?n)) @ replicate 14 NUL = op_char ?n # NUL # replicate (?n + 12) NUL"
      using d by (auto simp: field numeral_eq_Suc)
    then show ?thesis using atoi_op_char [of ?n "replicate (?n + 12) NUL"] d by auto
  qed
  ultimately have call: "client_write fh d ?n c = Inr (int ?n, ?c')"
    using client_write_sends [OF assms(1-3), of d] assms(5) by simp
  let ?buf = "replicate (4 - ?n) NUL @ take ?n (field4 (-1))" and ?c = "with_answer (field4 (-1)) ?c'"
  have "drop ?n (field4 (int ?n)) = replicate (4 - ?n) NUL" using d by (auto simp: field numeral_eq_Suc)
  then have "read_server (replicate 4 NUL) 4 (after_call (close_msg (session_id c) fh) 0 ?c)
      = Inr (4, ?buf, after_call (close_msg (session_id c) fh) 4 ?c)"
    using assms(1,7) d
    by (subst read_server_ready) (auto simp: client_ready_def after_call_def with_answer_def)
  moreover have "atoi ?buf = Inr 0"
    using d by (auto simp: atoi_def is_space_def fits_int_def numeral_eq_Suc)
  ultimately have "client_close fh ?c = Inr (0, after_call (close_msg (session_id c) fh) 4 ?c)"
    using client_close_sends [of ?c fh] assms(1-3) by simp
  with call False show ?thesis by auto
qed

lemma client_write_reads_the_wrong_length_witness:
  "client_write 3 ''hello'' 5 (with_answer (field4 5) (client_of 0)) = Inl Blocked
    \<and> (\<exists>c' c''. client_write 3 ''x'' 1 (with_answer (field4 1) (client_of 0)) = Inr (1, c')
        \<and> client_close 3 (with_answer (field4 (-1)) c') = Inr (0, c''))"
proof -
  have "\<not> writers_closed (from_server (with_answer bs (client_of 0)))" for bs
    by (simp add: with_answer_def client_of_def client0_def)
  moreover have "short_int 0" "short_int 3" by (simp_all add: short_int_def)
  ultimately show ?thesis
    using client_write_reads_the_wrong_length [of "with_answer (field4 5) (client_of 0)" 3 "''hello''"]
      client_write_reads_the_wrong_length [of "with_answer (field4 1) (client_of 0)" 3 "''x''"]
    by (auto simp: eval_nat_numeral)
qed

text \<open>C32: A write of more than 100 bytes (and fewer than 1000) runs past the end of the server's buffer.\<close>

theorem long_write_overruns_the_server:
  assumes "input [] s" and "i < MAX_SESSIONS" and "short_int fh" and "fh \<noteq> -1"
    and "100 < length d" and "length d < 1000" and "length g = SIZE"
  shows "serve g (deliver (write_msg (int i) fh d) s) = Inl Memory_Fault"
proof -
  let ?f = "field4 (int i)" and ?h = "field4 fh" and ?l = "field4 (int (length d))"
  let ?s = "deliver (write_msg (int i) fh d) s"
  note input = deliver_input [OF assms(1), of "write_msg (int i) fh d"]
  have len: "unat (of_nat (length d) :: size_t) = length d"
    using assms(6) by (intro unat_of_length) simp
  have short: "short_int (int (length d))" using assms(6) by (simp add: short_int_def)
  have "tfs_handle_write g (left (?f @ ?h @ ?l @ d) ?s) = Inl Memory_Fault"
    using assms input_idle [OF input] atoi_field4 [OF short_slot [OF assms(2)]] atoi_field4 [OF assms(3)]
      atoi_field4 [OF short]
    by (simp add: tfs_handle_write_def exit_if_failed_def slot_int Let_def clear_prefix_def len
        read_fserv_input [of ?f "?h @ ?l @ d"] read_fserv_input [of ?h "?l @ d"] read_fserv_input [of ?l d])
  with serve_dispatch [of 5 "?f @ ?h @ ?l @ d" ?s g] input show ?thesis
    by (simp add: write_msg_def dispatch_def)
qed

lemma long_write_overruns_the_server_witness:
  "serve garbage0 (deliver (write_msg 0 3 (replicate 200 CHR ''A'')) (serving 1 boot)) = Inl Memory_Fault"
  using long_write_overruns_the_server [of "serving 1 boot" 0 3 "replicate 200 CHR ''A''" garbage0]
  by (simp add: short_int_def)

text \<open>C31: A write that fails in the file system (a handle that is not valid, say) ends the server, for all
  its clients.\<close>

theorem failing_write_ends_the_server:
  assumes "session_of i fd c s" and "input [] s" and "short_int fh" and "fh \<noteq> -1" and "length g = SIZE"
    and "0 < length d" and "length d \<le> SIZE" and "tfs_write fh d (of_nat (length d)) (ops s) = Inr (r, f)"
    and "r < 0"
  shows "round_trip g i (deliver (write_msg (int i) fh d) s) = Inl (Exited 1)"
proof -
  note i = session_parts [OF assms(1)]
  let ?q = "\<lambda>q. q\<lparr>r_op_code := 5, r_fhandler := fh, r_len := of_nat (length d), r_to_write := Some d\<rparr>"
  let ?s = "deliver (write_msg (int i) fh d) s" and ?s1 = "increment_counter (left [] (deliver (write_msg (int i) fh d) s))"
  have "serve g ?s = Inr (increment_counter (hand_over i ?q (left [] ?s)))"
    using serve_write [of i fh d "[]" ?s g] deliver_input [OF assms(2)] i(1) assms(3-7) by simp
  moreover have "unat (of_nat (length d) :: size_t) = length d"
    using assms(7) by (intro unat_of_length) simp
  then have "solve g i (requested i ?q ?s1) = Inl (Exited 1)"
    using assms(4,8,9)
    by (simp add: solve_def tfs_thread_write_def memcpy_from_def Let_def update_request_def)
  ultimately show ?thesis by (simp add: round_trip_def take_hand_over)
qed

lemma failing_write_ends_the_server_witness:
  "round_trip garbage0 0 (deliver (write_msg 0 20 ''data'') (serving 1 boot)) = Inl (Exited 1)"
proof -
  have "\<exists>f. tfs_write 20 ''data'' (of_nat (length ''data'')) (ops (serving 1 boot)) = Inr (-1, f)"
    by (simp add: tfs_write_quiet [OF boot_quiet] tfs_write_unsynchronized_def get_open_file_entry_def
        valid_file_handle_def)
  then obtain f where "tfs_write 20 ''data'' (of_nat (length ''data'')) (ops (serving 1 boot)) = Inr (-1, f)" ..
  from failing_write_ends_the_server [where g = garbage0, OF serving_session [of 0 1 boot] _ _ _ _ _ _ this]
  show ?thesis by (simp add: short_int_def)
qed

section \<open>Handles and sessions that do not exist\<close>

text \<open>C30: A read with handle -1, as after a failed open, gives the client -1, but the server answers before it has
  read the length: its four bytes stay in the pipe and the next round takes the first for an operation
  code, so that the length of a read of up to nine bytes is obeyed as a request (7 is the shutdown).\<close>

theorem read_of_a_failed_open_becomes_a_request:
  assumes "session_of i fd c s" and "input [] s" and "pending (from_server c) = []" and "len < 10"
  shows "\<exists>s' c'. serve g (deliver (read_msg (int i) (-1) (int len)) s) = Inr s'
    \<and> sent_to fd s' = sent_to fd s @ field4 (-1)
    \<and> client_read (-1) buffer len (with_answer (field4 (-1)) c) = Inr (-1, buffer, c')
    \<and> pending (from_server c') = [] \<and> slaves s' = slaves s
    \<and> input (field4 (int len)) s' \<and> serve g s' = dispatch g (int len) (left [NUL, NUL, NUL] s')"
proof -
  note i = session_parts [OF assms(1)]
  let ?f = "field4 (int i)" and ?h = "field4 (-1)" and ?l = "field4 (int len)"
  let ?m = "read_msg (int i) (-1) (int len)" and ?s = "deliver (read_msg (int i) (-1) (int len)) s"
  let ?s' = "answer fd ?h (left ?l s)"
  note input = deliver_input [OF assms(2), of ?m]
  have short: "short_int (-1)" by (simp add: short_int_def)
  have left: "left bs ?s = left bs s" for bs by (simp add: left_def deliver_def)
  have fd: "s_fhandler (sessions s i) = fd" "fd_ready fd (left ?l s)"
    using assms(1) by (simp_all add: session_of_def fd_ready_def)
  have "tfs_handle_read (left (?f @ ?h @ ?l) ?s) = Inr ?s'"
    using i(1) fd input_idle [OF input] atoi_field4 [OF short_slot [OF i(1)]] atoi_field4 [OF short]
      reply_ready [OF fd(2), of 4 "?h @ replicate 96 NUL"]
    by (simp add: tfs_handle_read_def slot_int Let_def left read_fserv_input [of ?f "?h @ ?l"]
        read_fserv_input [of ?h ?l])
  then have serve: "serve g ?s = Inr ?s'"
    using serve_dispatch [of 6 "?f @ ?h @ ?l" ?s g] input by (simp add: read_msg_def dispatch_def)
  have s': "input ?l ?s'" "sent_to fd ?s' = sent_to fd s @ ?h" "slaves ?s' = slaves s"
    using assms(1,2) by (auto simp: input_def answer_def left_def sent_to_def session_of_def fd_ready_def)
  have "?l = op_char len # [NUL, NUL, NUL]" using field4_digit [OF assms(4)] by (simp add: numeral_eq_Suc)
  then have again: "serve g ?s' = dispatch g (int len) (left [NUL, NUL, NUL] ?s')"
    using serve_dispatch [of len "[NUL, NUL, NUL]" ?s' g] s'(1) assms(4) by simp
  have "client_read (-1) buffer len (with_answer ?h c) = Inr (-1, buffer, after_call ?m 4 (with_answer ?h c))"
    using client_read_error [of "with_answer ?h c" "-1" len "-1" "[]" buffer] i assms(3,4) short by simp
  with serve s' again assms(3) show ?thesis
    by (intro exI [of _ ?s'] exI [of _ "after_call ?m 4 (with_answer ?h c)"]) simp
qed

lemma read_of_a_failed_open_becomes_a_request_witness:
  "\<exists>s'. serve garbage0 (deliver (read_msg 0 (-1) 7) (serving 1 boot)) = Inr s'
    \<and> serve garbage0 s' = dispatch garbage0 7 (left [NUL, NUL, NUL] s')"
  using read_of_a_failed_open_becomes_a_request [OF serving_session [of 0 1 boot], of 7 garbage0] by auto

text \<open>C33: The session number of a request is not checked: with a number outside the table, such as the -1 of a
  client whose mount was refused, an open, close, read or shutdown makes the server access its tables
  out of bounds. Only an unmount with -1 is ignored.\<close>

theorem requests_without_a_session:
  assumes "input [] s" and "short_int sid" and "\<not> (0 \<le> sid \<and> sid < 10)" and "length nm = NAME_SIZE"
    and "0 \<le> flgs" and "flgs < 10" and "short_int fh" and "length g = SIZE"
  shows "serve g (deliver (open_msg sid nm flgs) s) = Inl Memory_Fault
    \<and> serve g (deliver (close_msg sid fh) s) = Inl Memory_Fault
    \<and> serve g (deliver (read_msg sid fh v) s) = Inl Memory_Fault
    \<and> serve g (deliver (shutdown_msg sid) s) = Inl Memory_Fault
    \<and> serve g (deliver (unmount_msg (-1)) s) = Inr s"
proof -
  let ?f = "field4 sid" and ?h = "field4 fh" and ?l = "field4 v"
  have slot: "slot sid = Inl Memory_Fault" using assms(3) by (simp add: slot_def)
  note sid = atoi_field4 [OF assms(2)] and fh = atoi_field4 [OF assms(7)]
  note idle = input_idle [OF assms(1)]
  have flag: "char_of ((flgs + 48) mod 256) = op_char (nat flgs)" by (rule flag_char [OF assms(5,6)])
  have flags: "atoi (take 4 (op_char (nat flgs) # replicate 55 NUL) @ replicate 96 NUL) = Inr flgs"
    using atoi_op_char [of "nat flgs" "replicate 98 NUL"] assms(5,6)
    by (simp add: take_Cons' flip: replicate_add replicate_Suc)
  let ?bs = "?f @ nm @ [op_char (nat flgs)]" and ?o = "deliver (open_msg sid nm flgs) s"
  have msg: "open_msg sid nm flgs = op_char 3 # ?bs" unfolding open_msg_def flag by simp
  have "read_fserv (replicate SIZE NUL) 45 (left ?bs ?o) = Inr (45, ?bs @ replicate 55 NUL, left [] ?o)"
    using read_fserv_input [of ?bs "[]" "left ?bs ?o" 45 "replicate SIZE NUL"] assms(4) idle by simp
  then have "tfs_handle_open (left ?bs ?o) = Inl Memory_Fault"
    using sid flags slot assms(4) by (simp add: tfs_handle_open_def exit_if_failed_def Let_def)
  then have 1: "serve g ?o = Inl Memory_Fault"
    using serve_dispatch [of 3 ?bs ?o g] deliver_input [OF assms(1), of "open_msg sid nm flgs"] msg
    by (simp add: dispatch_def)
  let ?c = "deliver (close_msg sid fh) s"
  have "tfs_handle_close g (left (?f @ ?h) ?c) = Inl Memory_Fault"
    using sid fh slot assms(8) idle
    by (simp add: tfs_handle_close_def exit_if_failed_def Let_def read_fserv_input [of ?f ?h]
        read_fserv_input [of ?h "[]"])
  then have 2: "serve g ?c = Inl Memory_Fault"
    using serve_dispatch [of 4 "?f @ ?h" ?c g] deliver_input [OF assms(1)]
    by (simp add: close_msg_def dispatch_def)
  let ?r = "deliver (read_msg sid fh v) s"
  have "tfs_handle_read (left (?f @ ?h @ ?l) ?r) = Inl Memory_Fault"
    using sid fh slot idle
    by (simp add: tfs_handle_read_def Let_def read_fserv_input [of ?f "?h @ ?l"] read_fserv_input [of ?h ?l])
  then have 3: "serve g ?r = Inl Memory_Fault"
    using serve_dispatch [of 6 "?f @ ?h @ ?l" ?r g] deliver_input [OF assms(1)]
    by (simp add: read_msg_def dispatch_def)
  let ?d = "deliver (shutdown_msg sid) s"
  have "tfs_handle_shutdown_after_all_close (left ?f ?d) = Inl Memory_Fault"
    using sid slot idle
    by (simp add: tfs_handle_shutdown_after_all_close_def read_fserv_input [of ?f "[]"])
  then have 4: "serve g ?d = Inl Memory_Fault"
    using serve_dispatch [of 7 ?f ?d g] deliver_input [OF assms(1)]
    by (simp add: shutdown_msg_def dispatch_def)
  let ?u = "deliver (unmount_msg (-1)) s"
  have "left [] ?u = s" using assms(1) by (simp add: left_def deliver_def input_def)
  then have "tfs_handle_unmount (left (field4 (-1)) ?u) = Inr s"
    using idle atoi_field4 [of "-1"]
    by (simp add: tfs_handle_unmount_def read_fserv_input [of "field4 (-1)" "[]"] short_int_def)
  then have 5: "serve g ?u = Inr s"
    using serve_dispatch [of 2 "field4 (-1)" ?u g] deliver_input [OF assms(1)]
    by (simp add: unmount_msg_def dispatch_def)
  from 1 2 3 4 5 show ?thesis by blast
qed

lemma requests_without_a_session_witness:
  "serve garbage0 (deliver (open_msg (-1) (padded ''/f'') 1) (serving 1 boot)) = Inl Memory_Fault
    \<and> serve garbage0 (deliver (unmount_msg (-1)) (serving 1 boot)) = Inr (serving 1 boot)"
  using requests_without_a_session [of "serving 1 boot" "-1" "padded ''/f''" 1 0 garbage0]
  by (simp add: short_int_def)

end
