(* ===== verification/Pipes_Properties.thy ===== *)
theory Pipes_Properties
  imports Protocol
begin

text \<open>
  What the text fields and the loops around \<open>read\<close> and \<open>write\<close> guarantee, and what they do not.
\<close>

section \<open>Number fields\<close>

lemma digits_4:
  assumes "1000 \<le> n" and "n < 10000"
  shows "length (digits n) = 4"
proof -
  have step: "length (digits m) = Suc (length (digits (m div 10)))" if "10 \<le> m" for m
    using that by (simp add: digits.simps [of m])
  have "10 \<le> n div 100" "10 \<le> n div 10" "10 \<le> n" "n div 1000 < 10" using assms by auto
  then show ?thesis
    using step [of n] step [of "n div 10"] step [of "n div 100"]
    by (simp add: digits.simps [of "n div 1000"] flip: div_mult2_eq)
qed

lemma field4_cut:
  assumes "10000 \<le> n" and "n < 100000"
  shows "field4 (int n) = digits (n div 10)"
proof -
  have len: "length (digits (n div 10)) = 4" using assms by (intro digits_4) simp_all
  have "digits n = digits (n div 10) @ [char_of (48 + n mod 10)]"
    using assms by (simp add: digits.simps [of n])
  then show ?thesis using len by (simp add: field4_def sprintf_d_def)
qed

lemma digits_long: "10 ^ k \<le> n \<Longrightarrow> Suc k \<le> length (digits n)"
proof (induction k arbitrary: n)
  case (Suc k)
  then have "10 \<le> n" "10 ^ k \<le> n div 10" by (auto simp: less_eq_div_iff_mult_less_eq intro: order_trans [rotated])
  with Suc.IH [of "n div 10"] show ?case by (simp add: digits.simps [of n])
qed (simp add: Suc_le_eq)

lemma sprintf_d_too_long:
  assumes "\<not> short_int v"
  shows "4 \<le> length (sprintf_d v)"
proof (cases "v < 0")
  case True
  then have "10 ^ 2 \<le> nat (- v)" using assms by (simp add: short_int_def)
  from digits_long [OF this] True show ?thesis by (simp add: sprintf_d_def)
next
  case False
  then have "10 ^ 3 \<le> nat v" using assms by (simp add: short_int_def)
  from digits_long [OF this] False show ?thesis by (simp add: sprintf_d_def)
qed

text \<open>The text fits the array it is printed into: the field is its first four bytes.\<close>

lemma printed_field:
  assumes "length (sprintf_d v) < n" and "4 \<le> n"
  shows "int_field n v = Inr (field4 v)" and "\<exists>txt. int_text n v = Inr txt \<and> take 4 txt = field4 v"
  using assms by (simp_all add: int_field_def int_text_def sprintf_into_zeros memcpy_from_def field4_def min_def)

text \<open>C25: Numbers in messages. The arrays of four bytes into which the client's \<open>tfs_open\<close>,
  \<open>tfs_close\<close> and \<open>tfs_shutdown_after_all_closed\<close> print a number are overrun by every number of four or
  more characters, and for the others \<open>atoi\<close> reads the field back whatever follows it. The arrays of nine bytes in
  \<open>tfs_write\<close> and \<open>tfs_read\<close>, and the server's of 100, hold longer numbers, but four bytes
  are sent: up to four characters come back when a NUL follows, a number of five digits loses the last.\<close>

theorem number_field_roundtrip:
  "(case int_field sizeof_int v of
      Inl e \<Rightarrow> e = Memory_Fault \<and> (v \<le> - 100 \<or> 1000 \<le> v)
    | Inr bs \<Rightarrow> - 100 < v \<and> v < 1000 \<and> length bs = sizeof_int \<and> atoi (bs @ rest) = Inr v)
   \<and> (- 1000 < v \<and> v < 100000 \<longrightarrow>
      (\<exists>bs txt. int_field 9 v = Inr bs \<and> int_text SIZE v = Inr txt \<and> take sizeof_int txt = bs
        \<and> length bs = sizeof_int \<and> atoi (bs @ NUL # rest) = Inr (if v < 10000 then v else v div 10)))"
proof (intro conjI impI)
  show "case int_field sizeof_int v of
      Inl e \<Rightarrow> e = Memory_Fault \<and> (v \<le> - 100 \<or> 1000 \<le> v)
    | Inr bs \<Rightarrow> - 100 < v \<and> v < 1000 \<and> length bs = sizeof_int \<and> atoi (bs @ rest) = Inr v"
  proof (cases "short_int v")
    case True
    then show ?thesis
      using int_field_short [OF True, of sizeof_int] atoi_field4 [OF True, of rest] by (simp add: short_int_def)
  next
    case False
    then have "int_field sizeof_int v = Inl Memory_Fault"
      using sprintf_d_too_long by (simp add: int_field_def sprintf_into_def)
    with False show ?thesis by (auto simp: short_int_def)
  qed
next
  assume v: "- 1000 < v \<and> v < 100000"
  have "length (sprintf_d v) < 9 \<and> atoi (field4 v @ NUL # rest) = Inr (if v < 10000 then v else v div 10)"
  proof (cases "v < 10000")
    case True
    with v atoi_field4_long [of v rest] sprintf_d_long [of v] show ?thesis by simp
  next
    case False
    then have "field4 v = sprintf_d (v div 10)"
      using field4_cut [of "nat v"] v by (simp add: sprintf_d_def nat_div_distrib)
    moreover have "0 \<le> v div 10" "v div 10 < 10000" using False v by auto
    then have "fits_int (v div 10)" by (simp add: fits_int_def)
    moreover have "length (digits (nat v)) \<le> Suc 4" by (rule digits_length) (use v False in simp)
    ultimately show ?thesis
      using False atoi_sprintf_d [of "v div 10" rest] by (simp add: sprintf_d_def)
  qed
  then show "\<exists>bs txt. int_field 9 v = Inr bs \<and> int_text SIZE v = Inr txt \<and> take sizeof_int txt = bs
      \<and> length bs = sizeof_int \<and> atoi (bs @ NUL # rest) = Inr (if v < 10000 then v else v div 10)"
    using printed_field(1) [of v 9] printed_field(2) [of v SIZE] by auto
qed

lemma number_field_roundtrip_witness:
  "(\<exists>bs. int_field 4 (-42) = Inr bs \<and> atoi (bs @ ''1'') = Inr (-42)) \<and> int_field 4 1000 = Inl Memory_Fault
    \<and> (\<exists>bs. int_field 9 12345 = Inr bs \<and> atoi (bs @ [NUL]) = Inr 1234)"
  using number_field_roundtrip [of "-42" "''1''"] number_field_roundtrip [of 1000 "[]"]
    number_field_roundtrip [of 12345 "[]"]
  by (auto split: sum.splits)

section \<open>\<open>slait\<close>\<close>

text \<open>The system gives no error in the coming reads.\<close>

definition no_errors :: "in_pipe \<Rightarrow> bool" where
  "no_errors p \<longleftrightarrow> (\<forall>e. Fails e \<notin> set (read_rets p))"

lemma sys_read_cases:
  assumes "no_errors p" and "0 < n" and "pending p \<noteq> []"
  obtains k q where "sys_read n p = Inr (Some (take k (pending p)), q)" and "0 < k" and "k \<le> n"
    and "pending q = drop k (pending p)" and "no_errors q"
proof (cases "read_rets p")
  case Nil
  then show ?thesis using assms that [of n] by (simp add: sys_read_def no_errors_def)
next
  case (Cons r rs)
  with assms(1) obtain m where "r = Up_to m" by (cases r) (auto simp: no_errors_def)
  with Cons assms that [of "min n (Suc m)"] show ?thesis by (auto simp: sys_read_def no_errors_def Let_def)
qed

lemma slait_from_exact:
  "no_errors p \<Longrightarrow> count < len \<Longrightarrow> length (pending p) = len - count \<Longrightarrow> len \<le> length buf
    \<Longrightarrow> \<exists>k q. slait_from count buf len p
          = Inr (int k, take count buf @ pending p @ drop len buf, q)
        \<and> 0 < k \<and> k \<le> len \<and> pending q = []"
proof (induction count buf len p rule: slait_from.induct)
  case (1 count buf len p)
  have "pending p \<noteq> []" "0 < len" using "1.prems" by auto
  then obtain k q where k: "sys_read len p = Inr (Some (take k (pending p)), q)" "0 < k" "k \<le> len"
      "pending q = drop k (pending p)" "no_errors q"
    using sys_read_cases [OF "1.prems"(1)] by metis
  let ?bs = "take k (pending p)" and ?c = "count + length (take k (pending p))"
  have c: "?c \<le> len" "?bs \<noteq> []" using "1.prems" k(2) by auto
  have store: "store buf count ?bs = Inr (take count buf @ ?bs @ drop ?c buf)"
    using c "1.prems"(4) by (simp add: store_def)
  show ?case
  proof (cases "?c = len")
    case True
    then have "?bs = pending p" using "1.prems"(2,3) by simp
    with True k store c show ?thesis
      by (subst slait_from.simps) (use "1.prems"(2,3) in \<open>auto simp flip: of_nat_diff\<close>)
  next
    case False
    let ?buf = "take count buf @ ?bs @ drop ?c buf"
    have len: "?c < len" "length (pending q) = len - ?c" "len \<le> length ?buf" "k < length (pending p)"
      using False c "1.prems"(2-4) k(4) by auto
    from "1.IH" [OF k(1) refl refl _ store _ k(5) len(1-3)] c(2) False len(1)
    obtain j q' where "slait_from ?c ?buf len q = Inr (int j, take ?c ?buf @ pending q @ drop len ?buf, q')"
        "0 < j" "j \<le> len" "pending q' = []"
      by force
    moreover have "take ?c ?buf @ pending q @ drop len ?buf = take count buf @ pending p @ drop len buf"
      using len "1.prems"(2,4) k(4) by simp
    ultimately show ?thesis
      using k(1) store c(2) len(1) by (subst slait_from.simps) simp
  qed
qed

text \<open>C22: When the pipe holds exactly the \<open>n\<close> bytes that are asked for, \<open>slait\<close> stores them in order at
  the start of the buffer, leaves the rest of the buffer alone and empties the pipe, however the system
  splits them into short reads; its result is positive but only the length of the last piece.\<close>

theorem slait_collects_short_reads:
  assumes "no_errors p" and "pending p \<noteq> []" and "length (pending p) \<le> length buf"
  shows "\<exists>k q. slait buf (length (pending p)) p
      = Inr (int k, pending p @ drop (length (pending p)) buf, q)
    \<and> 0 < k \<and> k \<le> length (pending p) \<and> pending q = []"
  using slait_from_exact [of p 0 "length (pending p)" buf] assms by (simp add: slait_def)

lemma slait_collects_short_reads_witness:
  "\<exists>k q. slait ''......'' 4 \<lparr>pending = ''abcd'', writers_closed = False, read_rets = [Up_to 0, Up_to 1], errno = 0\<rparr>
      = Inr (int k, ''abcd..'', q) \<and> 0 < k \<and> pending q = []"
  using slait_collects_short_reads [of "\<lparr>pending = ''abcd'', writers_closed = False,
      read_rets = [Up_to 0, Up_to 1], errno = 0\<rparr>" "''......''"]
  by (auto simp: no_errors_def eval_nat_numeral)

text \<open>C34: After a short read \<open>slait\<close> asks for the whole length again: when more bytes are there it takes
  up to \<open>n\<close> of them behind the piece it has, which belong to what follows, and runs past the end of
  a buffer that has no room for them.\<close>

theorem slait_over_reads:
  assumes "read_rets p = [Up_to k]" and "Suc k < n" and "n \<le> length buf"
    and "Suc k + n \<le> length (pending p)"
  shows "slait buf n p = (if length buf < Suc k + n then Inl Memory_Fault
    else Inr (int n, take (Suc k + n) (pending p) @ drop (Suc k + n) buf,
      p\<lparr>pending := drop (Suc k + n) (pending p), read_rets := []\<rparr>))"
proof -
  obtain as bs cs where p: "pending p = as @ bs @ cs" "length as = Suc k" "length bs = n"
  proof (rule that)
    show "pending p = take (Suc k) (pending p) @ take n (drop (Suc k) (pending p))
        @ drop n (drop (Suc k) (pending p))"
      by (simp only: append_take_drop_id)
  qed (use assms(4) in simp_all)
  let ?p = "p\<lparr>pending := bs @ cs, read_rets := []\<rparr>" and ?buf = "as @ drop (Suc k) buf"
  have "sys_read n p = Inr (Some as, ?p)" using assms(1,2) p by (auto simp: sys_read_def)
  moreover have "store buf 0 as = Inr ?buf" "as \<noteq> []" using assms(2,3) p by (auto simp: store_def)
  ultimately have "slait buf n p = slait_from (Suc k) ?buf n ?p"
    using assms(2) p by (simp add: slait_def slait_from.simps [of 0])
  moreover have "sys_read n ?p = Inr (Some bs, p\<lparr>pending := cs, read_rets := []\<rparr>)" "bs \<noteq> []"
    using assms(2) p by (auto simp: sys_read_def)
  moreover have "store ?buf (Suc k) bs = (if length buf < Suc k + n then Inl Memory_Fault
      else Inr (as @ bs @ drop (Suc k + n) buf))"
    using assms(2,3) p by (auto simp: store_def add.commute)
  ultimately show ?thesis
    using assms(2) p by (simp add: slait_from.simps [of "Suc k"])
qed

lemma slait_over_reads_witness:
  "slait ''....'' 4 \<lparr>pending = ''27abcd'', writers_closed = False, read_rets = [Up_to 0], errno = 0\<rparr>
    = Inl Memory_Fault"
  using slait_over_reads [of "\<lparr>pending = ''27abcd'', writers_closed = False, read_rets = [Up_to 0],
      errno = 0\<rparr>" 0 4 "''....''"]
  by simp

lemma slait_from_returns:
  "writers_closed p \<or> len - count \<le> length (pending p) \<Longrightarrow> count < len
    \<Longrightarrow> count + min (2 * len - 1 - count) (length (pending p)) \<le> length buf
    \<Longrightarrow> \<exists>ret buf' q. slait_from count buf len p = Inr (ret, buf', q)"
proof (induction count buf len p rule: slait_from.induct)
  case (1 count buf len p)
  have "sys_read len p \<noteq> Inl e" for e
    using "1.prems" by (auto simp: sys_read_def Let_def split: list.splits io_ret.splits)
  then obtain ob q where r: "sys_read len p = Inr (ob, q)" by (cases "sys_read len p") auto
  show ?case
  proof (cases "ob = None \<or> ob = Some []")
    case True
    with r show ?thesis by (subst slait_from.simps) auto
  next
    case False
    then obtain bs where rs: "sys_read len p = Inr (Some bs, q)" "bs \<noteq> []" using r by (cases ob) auto
    have p: "writers_closed q = writers_closed p" "pending p = bs @ pending q" "length bs \<le> len"
      using rs by (auto simp: sys_read_def Let_def split: list.splits io_ret.splits if_splits)
    let ?buf = "take count buf @ bs @ drop (count + length bs) buf"
    have room: "count + length bs \<le> length buf" using "1.prems"(2,3) p(2,3) by (auto simp: min_def split: if_splits)
    then have store: "store buf count bs = Inr ?buf" by (simp add: store_def)
    show ?thesis
    proof (cases "count + length bs \<ge> len")
      case True
      with rs store show ?thesis by (subst slait_from.simps) simp
    next
      case more: False
      have "count + length bs + min (2 * len - 1 - (count + length bs)) (length (pending q)) \<le> length ?buf"
        using "1.prems"(3) p(2) room by (auto simp: min_def split: if_splits)
      with "1.IH" [OF rs(1) refl refl rs(2) store] "1.prems"(1) p more
      have "\<exists>ret buf' q'. slait_from (count + length bs) ?buf len q = Inr (ret, buf', q')" by force
      with rs store more show ?thesis by (subst slait_from.simps) simp
    qed
  qed
qed

text \<open>C23: \<open>slait\<close> returns: its loop ends for every schedule of reads, errors included, and neither waits
  for ever nor leaves the buffer, when the \<open>n\<close> bytes asked for are there or the writers have closed the pipe,
  and the buffer has room for \<open>2 n - 1\<close> bytes or for all bytes in the pipe (the last round asks for \<open>n\<close>
  bytes again).\<close>

theorem slait_returns:
  assumes "0 < n" and "writers_closed p \<or> n \<le> length (pending p)"
    and "2 * n - 1 \<le> length buf \<or> length (pending p) \<le> length buf"
  shows "\<exists>ret buf' q. slait buf n p = Inr (ret, buf', q)"
  using slait_from_returns [of p n 0 buf] assms by (auto simp: slait_def)

lemma slait_returns_witness:
  "\<exists>ret buf' q. slait ''....'' 4 \<lparr>pending = ''ab'', writers_closed = True,
    read_rets = [Up_to 0, Fails 4], errno = 0\<rparr> = Inr (ret, buf', q)"
  by (rule slait_returns) simp_all

section \<open>\<open>slait_write\<close>\<close>

text \<open>After a short write \<open>slait_write\<close> sends the whole buffer again, so the reader gets the
  bytes already written twice; after a write of everything it has sent them once.\<close>

lemma slait_write_repeats_the_start:
  assumes "write_rets q = [Up_to k]" and "n \<le> length buf" and "0 < n"
  shows "slait_write buf n q = Inr (int n, q\<lparr>write_rets := [],
    sent := sent q @ (if Suc k < n then take (Suc k) buf @ take n buf else take n buf)\<rparr>)"
proof -
  let ?k = "min n (Suc k)" and ?q = "q\<lparr>sent := sent q @ take (min n (Suc k)) buf, write_rets := []\<rparr>"
  have "sys_write (take n buf) q = (int ?k, ?q)"
    using assms by (simp add: sys_write_def min_def)
  then have "slait_write buf n q = (if ?k = n then Inr (int n, ?q) else slait_write_from ?k buf n ?q)"
    using assms by (auto simp: slait_write_def slait_write_from.simps [of 0] min_def nat_add_distrib)
  moreover have "slait_write_from (Suc k) buf n ?q
      = Inr (int n, ?q\<lparr>sent := sent q @ take (Suc k) buf @ take n buf\<rparr>)" if "Suc k < n"
    using assms that by (simp add: slait_write_from.simps [of "Suc k"] sys_write_all min_def)
  ultimately show ?thesis using assms(3) by (simp add: min_def)
qed

end
