(* ===== verification/Spec2Isabelle.thy ===== *)
theory Spec2Isabelle
  imports Shutdown_Properties Server_Properties Concurrent_Properties Server_Start Request_Errors Pipes_Properties
begin

text \<open>
  TecnicoFS: a small file system in memory, a server that offers it to clients over named pipes, and the client
  library (\<open>src/tecnicofs_ex2\<close>).

  The program. \<open>fs/state.c\<close> keeps the tables of i-nodes, data blocks and open files; \<open>fs/operations.c\<close> builds
  \<open>tfs_open\<close>, \<open>tfs_close\<close>, \<open>tfs_write\<close>, \<open>tfs_read\<close> and the shutdown on them, under two mutexes;
  \<open>fs/tfs_server.c\<close> is the server: its main thread reads requests from one pipe, parses them and hands each
  to the slave thread of the client's session, which calls the file system and answers on the client's pipe;
  \<open>client/tecnicofs_client_api.c\<close> sends the requests and reads the answers.

  The theories, in the order of the code:

  \<^item> \<open>TFS_Prelude\<close>: faults (a read or write out of bounds, an overflow of \<open>atoi\<close>, a mutex locked by its holder, a wait without end, the end of
    the process), C strings, memory as bytes, 64-bit sizes, and three contracts stated as locales: the
    allocation tables (\<open>alloc_table\<close>, in \<open>Alloc_Table\<close>, with its extension \<open>alloc_table_release\<close>), invariants of
    step relations (\<open>step_invariant\<close>) and refinement of histories (\<open>refinement\<close>). The first is interpreted on
    i-nodes, blocks, handles and sessions, the second on the threads of the shutdown and on the
    server, the third on the file system and on the clients with the server.
  \<^item> \<open>FS_State\<close> (\<open>state.c\<close>, \<open>state.h\<close>, \<open>config.h\<close>): the static tables are the record \<open>fs_state\<close>,
    one definition per function; directory entries are bytes of the data blocks, as the casts make them.
    \<open>FS_Directory\<close>: what the two loops over a directory compute.
  \<^item> \<open>FS_Operations\<close> (\<open>operations.c\<close>): the record \<open>ops_state\<close> with the mutexes, and each operation with all
    its returns, including those on failing mutex calls.
  \<^item> \<open>FS_Invariant\<close>, \<open>FS_Preservation\<close>, \<open>FS_ReadWrite\<close>: the well-formedness of all tables, its preservation,
    and the effect of reads and writes on the bytes. \<open>FS_Spec\<close>: the specification (names to files, handles to
    files with offsets) and the refinement of each unsynchronized operation; \<open>FS_Sync\<close>: the same for the
    operations with their mutexes, and for histories of them.
  \<^item> \<open>FS_Shutdown\<close>: any number of threads that run the operations, one step between two mutex calls, with
    the condition variable of \<open>tfs_destroy_after_all_closed\<close> and spurious wake-ups. \<open>FS_Linear\<close>: their histories
    (calls, effects, returns) and the operations run one at a time, to which they are compared.
  \<^item> \<open>C_Text\<close>, \<open>Pipes\<close>: \<open>sprintf\<close>, \<open>atoi\<close>, \<open>memcpy\<close>; pipes whose reads and writes may be short or
    fail, and the loops \<open>slait\<close> and \<open>slait_write\<close>.
  \<^item> \<open>Client\<close> (\<open>tecnicofs_client_api.c\<close>): one definition \<open>client_...\<close> per function \<open>tfs_...\<close>.
  \<^item> \<open>Server_State\<close>, \<open>Server_Main\<close>, \<open>Server_Slave\<close> (\<open>tfs_server.c\<close>): the static variables are the record
    \<open>server\<close>; the handlers of the main thread and \<open>serve\<close>, one round of \<open>main\<close>; the functions of a slave,
    \<open>solve\<close>, and \<open>world_step\<close>, the interleaving of all threads. \<open>Server_Start\<close>: \<open>server_init\<close> with the calls that
    can fail, and \<open>main\<close> up to its loop.
  \<^item> \<open>Protocol\<close>: the messages, what each handler makes of them, what the client makes of the answers.
    \<open>Remote\<close>, \<open>Requests\<close>: one request from call to return, as an operation of the file system;
    \<open>Remote_Histories\<close>: histories of requests of several clients, one request at a time; \<open>Concurrent_Clients\<close>:
    requests that overlap, as steps of clients, main thread and slaves;
    \<open>Sessions\<close>: mount and unmount; \<open>World\<close>: invariants of the whole server; \<open>Leak_Run\<close>: a run into the deadlock.
  \<^item> \<open>FS_Examples\<close>, \<open>Server_Examples\<close>: the concrete states of the instances. \<open>FS_Properties\<close>,
    \<open>Shutdown_Properties\<close>, \<open>Pipes_Properties\<close>, \<open>Request_Errors\<close>, \<open>Sessions\<close>, \<open>Server_Properties\<close>,
    \<open>Concurrent_Properties\<close>: the properties.

  What is shown. For callers that respect \<open>fs_ok\<close> (paths of at most 40 characters, handles that are open, no
  truncation under other handles) the file system is a map from names to files with handles: alone, and
  through the server for requests that respect \<open>fits\<close> (writes of exactly four bytes, which are the only ones
  whose answers the client reads right, and numbers that fit the messages), where calls of several clients may
  overlap and none gets stuck. Its tables stay well formed and never run out before the directory does. While
  no close of an invalid handle has happened, concurrent threads see the operations one at a time, the mutexes
  exclude and do not deadlock, and the shutdown waits for the last close and misses no wake-up. The server starts
  with empty tables, counts its sessions right, refuses the eleventh, and a slave touches only its own session. The
  loop \<open>slait\<close> collects short reads and ends, in a buffer with room for \<open>2 n - 1\<close> bytes. Beyond that use: a close of
  a handle that is not open breaks the count that the shutdown waits for; a handle never opened gives
  access to the root directory; lengths wrap around; long names are lost; a full session table leaks
  \<open>global_mutex\<close>, for ever, and the server reaches that state; client and server disagree on the
  length of the answer of a write, and on requests with handle or session -1; numbers of four characters overrun
  the client's arrays; a failing write ends the server; slaves that could not be created leave their
  positions on offer.

  Bounds. All functions are total. The loops over tables are scans of fixed length; \<open>slait\<close> ends
  because every round takes a byte of the finite input, \<open>slait_write\<close> because every round counts one; the
  loops that wait for \<open>open\<close> to succeed run over a finite list of results and are \<open>Blocked\<close> (the server) or
  succeed (the client) at its end.

  Assumptions in the model. The results of system calls are inputs: a list of errors or lengths for the
  coming reads and writes of a pipe, a list of results for \<open>open\<close>, \<open>close\<close>, \<open>unlink\<close> and \<open>mkfifo\<close>; past the end of
  a list they succeed. Uninitialised arrays hold an argument \<open>garbage\<close>. In the server the mutexes of slaves,
  \<open>counter_mutex\<close> and \<open>read_lock\<close> are held within one step only; their calls do not fail. A slave
  carries out a request in one step; the interleaving inside the file system is \<open>FS_Shutdown\<close>. The code
  between two mutex calls is one step there, which the exclusion proved of the mutexes justifies. A client has
  mounted before its other calls. \<open>pthread\<close> calls on the mutexes and conditions of the server succeed
  after its start.

  Not modelled: the delay loops of \<open>state.c\<close> (no effect on the state), printed messages, the thread that
  prints the number of operations, and the dialogue on SIGINT: input and output without program logic.
  \<open>tfs_copy_to_external_fs\<close> is declared in \<open>operations.h\<close> but not defined.
\<close>

end
